theory Spec2Isabelle
  imports Complex_Main "HOL-Library.Word"
begin

unbundle bit_operations_syntax

section \<open>Machine types and error codes (HitecDServo.h)\<close>

text \<open>
  The target is an AVR microcontroller: \<open>uint8_t\<close> and \<open>uint16_t\<close> are words;
  the C type \<open>int\<close> (16 bits there) holds either a received byte or a negative error
  code, and is modelled as \<open>int\<close>. Every \<open>int\<close> expression of the sources stays
  far inside the 16-bit range, except \<open>low + (high << 8)\<close> in \<open>readReg\<close>, whose value is
  stored into a \<open>uint16_t\<close>, that is, taken modulo \<open>2 ^ 16\<close>.
\<close>

type_synonym u8 = "8 word"
type_synonym u16 = "16 word"

definition HITECD_OK :: int where
  "HITECD_OK = 1"

definition HITECD_ERR_NO_SERVO :: int where
  "HITECD_ERR_NO_SERVO = - 1"

definition HITECD_ERR_NO_RESISTOR :: int where
  "HITECD_ERR_NO_RESISTOR = - 2"

definition HITECD_ERR_CORRUPT :: int where
  "HITECD_ERR_CORRUPT = - 3"

definition HITECD_ERR_UNSUPPORTED_MODEL :: int where
  "HITECD_ERR_UNSUPPORTED_MODEL = - 4"

definition HITECD_ERR_NOT_ATTACHED :: int where
  "HITECD_ERR_NOT_ATTACHED = - 5"

section \<open>The microcontroller, the line and the servo object\<close>

text \<open>
  The Arduino core and the AVR registers are outside the sources. Every call into them
  is recorded as an event, together with the value of \<open>SREG\<close> at that moment (bit 7 of
  \<open>SREG\<close> is the global interrupt enable flag, which \<open>cli()\<close> clears).
\<close>

datatype pin_mode = OUTPUT | INPUT_PULLUP

abbreviation LOW :: bool where
  "LOW \<equiv> False"

abbreviation HIGH :: bool where
  "HIGH \<equiv> True"

datatype event =
    PinMode int pin_mode          \<comment> \<open>\<open>pinMode(pin, mode)\<close>\<close>
  | DigitalWrite int bool         \<comment> \<open>\<open>digitalWrite(pin, level)\<close>\<close>
  | DigitalRead int bool          \<comment> \<open>\<open>digitalRead(pin)\<close> and the level it returned\<close>
  | PortSet nat u8                \<comment> \<open>\<open>*reg |= mask\<close>\<close>
  | PortClear nat u8              \<comment> \<open>\<open>*reg &= ~mask\<close>\<close>
  | PortRead nat u8 bool          \<comment> \<open>\<open>*reg & mask\<close> and whether it was non-zero\<close>
  | DelayUsCompensated nat nat    \<comment> \<open>\<open>DELAY_US_COMPENSATED(us, cycles)\<close>, \<open>us\<close> in 1/100 us\<close>
  | Delay nat                     \<comment> \<open>\<open>delay(ms)\<close>\<close>
  | Cli                           \<comment> \<open>\<open>cli()\<close>\<close>
  | WriteSREG u8                  \<comment> \<open>\<open>SREG = v\<close>\<close>

text \<open>
  The fields of class \<open>HitecDServo\<close>, followed by the machine state: \<open>SREG\<close>, the
  levels the line will show at the successive reads of it (\<open>line_in\<close>; once the list
  is used up the line reads LOW), and the record of all hardware accesses so far.
\<close>

record servo =
  pin :: int
  pinBitMask :: u8
  pinInputRegister :: nat
  pinOutputRegister :: nat
  modelNumber :: int
  rawAngleFor850 :: int
  rawAngleFor1500 :: int
  rawAngleFor2150 :: int
  SREG :: u8
  line_in :: "bool list"
  hw_trace :: "(u8 \<times> event) list"

text \<open>The pin tables of the Arduino core, which \<open>attach\<close> consults.\<close>

record board =
  digitalPinToBitMask :: "int \<Rightarrow> u8"
  digitalPinToPort :: "int \<Rightarrow> u8"
  portInputRegister :: "u8 \<Rightarrow> nat"
  portOutputRegister :: "u8 \<Rightarrow> nat"

definition emit :: "event \<Rightarrow> servo \<Rightarrow> servo" where
  "emit e s = s\<lparr>hw_trace := hw_trace s @ [(SREG s, e)]\<rparr>"

definition cli :: "servo \<Rightarrow> servo" where
  "cli s = (emit Cli s)\<lparr>SREG := SREG s AND NOT 0x80\<rparr>"

definition write_SREG :: "u8 \<Rightarrow> servo \<Rightarrow> servo" where
  "write_SREG v s = (emit (WriteSREG v) s)\<lparr>SREG := v\<rparr>"

definition pinMode :: "int \<Rightarrow> pin_mode \<Rightarrow> servo \<Rightarrow> servo" where
  "pinMode p m s = emit (PinMode p m) s"

definition digitalWrite :: "int \<Rightarrow> bool \<Rightarrow> servo \<Rightarrow> servo" where
  "digitalWrite p v s = emit (DigitalWrite p v) s"

definition delay :: "nat \<Rightarrow> servo \<Rightarrow> servo" where
  "delay ms s = emit (Delay ms) s"

definition DELAY_US_COMPENSATED :: "nat \<Rightarrow> nat \<Rightarrow> servo \<Rightarrow> servo" where
  "DELAY_US_COMPENSATED us cycles s = emit (DelayUsCompensated us cycles) s"

definition sample :: "servo \<Rightarrow> bool \<times> servo" where
  "sample s = (case line_in s of [] \<Rightarrow> (LOW, s) | v # rest \<Rightarrow> (v, s\<lparr>line_in := rest\<rparr>))"

definition digitalRead :: "int \<Rightarrow> servo \<Rightarrow> bool \<times> servo" where
  "digitalRead p s = (case sample s of (v, s') \<Rightarrow> (v, emit (DigitalRead p v) s'))"

text \<open>\<open>*pinInputRegister & pinBitMask\<close>\<close>

definition portRead :: "servo \<Rightarrow> bool \<times> servo" where
  "portRead s =
     (case sample s of (v, s') \<Rightarrow>
        (v, emit (PortRead (pinInputRegister s) (pinBitMask s) v) s'))"

text \<open>\<open>*pinOutputRegister |= pinBitMask\<close> and \<open>*pinOutputRegister &= ~pinBitMask\<close>\<close>

definition portSet :: "servo \<Rightarrow> servo" where
  "portSet s = emit (PortSet (pinOutputRegister s) (pinBitMask s)) s"

definition portClear :: "servo \<Rightarrow> servo" where
  "portClear s = emit (PortClear (pinOutputRegister s) (pinBitMask s)) s"

section \<open>A bench setup for the concrete runs\<close>

text \<open>
  An Arduino Uno with the servo on pin 2 (bit 2 of port D, \<open>PIND\<close> at 0x29, \<open>PORTD\<close>
  at 0x2B), and a servo object whose cache holds the values of a D485HW.
\<close>

definition bench_board :: board where
  "bench_board =
     \<lparr>digitalPinToBitMask = (\<lambda>p. if p = 2 then 0x04 else 0x00),
      digitalPinToPort = (\<lambda>p. 4),
      portInputRegister = (\<lambda>port. 0x29),
      portOutputRegister = (\<lambda>port. 0x2B)\<rparr>"

definition bench_servo :: servo where
  "bench_servo =
     \<lparr>pin = 2, pinBitMask = 0x04, pinInputRegister = 0x29, pinOutputRegister = 0x2B,
      modelNumber = 485, rawAngleFor850 = 3381, rawAngleFor1500 = 8192,
      rawAngleFor2150 = 13002, SREG = 0x80, line_in = [], hw_trace = []\<rparr>"

section \<open>Lifecycle (HitecDServo.cpp)\<close>

text \<open>The constructor initialises \<open>pin\<close> only; the other fields keep what they held.\<close>

definition HitecDServo :: "servo \<Rightarrow> servo" where
  "HitecDServo s = s\<lparr>pin := - 1\<rparr>"

definition attach :: "board \<Rightarrow> int \<Rightarrow> servo \<Rightarrow> servo" where
  "attach b p s =
     (let s = s\<lparr>pin := p\<rparr>;
          s = pinMode (pin s) OUTPUT s;
          s = digitalWrite (pin s) LOW s;
          s = s\<lparr>pinBitMask := digitalPinToBitMask b (pin s)\<rparr>;
          port = digitalPinToPort b (pin s);
          s = s\<lparr>pinInputRegister := portInputRegister b port\<rparr>;
          s = s\<lparr>pinOutputRegister := portOutputRegister b port\<rparr>
      in s)"

definition attached :: "servo \<Rightarrow> bool" where
  "attached s = (pin s \<noteq> - 1)"

definition detach :: "servo \<Rightarrow> servo" where
  "detach s = s\<lparr>pin := - 1\<rparr>"

section \<open>Bit-level transport\<close>

text \<open>The values of \<open>m\<close> in \<open>for (int m = 0x001; m != 0x100; m <<= 1)\<close>.\<close>

definition bit_masks :: "u8 list" where
  "bit_masks = [0x01, 0x02, 0x04, 0x08, 0x10, 0x20, 0x40, 0x80]"

definition writeBit :: "u8 \<Rightarrow> servo \<Rightarrow> u8 \<Rightarrow> servo" where
  "writeBit val s m =
     (let s = (if val AND m \<noteq> 0 then portClear s else portSet s)
      in DELAY_US_COMPENSATED 868 25 s)"

definition writeByte :: "u8 \<Rightarrow> servo \<Rightarrow> servo" where
  "writeByte val s =
     (let s = portSet s;
          s = DELAY_US_COMPENSATED 868 25 s;
          s = foldl (writeBit val) s bit_masks;
          s = portClear s;
          s = DELAY_US_COMPENSATED 868 25 s
      in s)"

text \<open>
  The wait for the start bit. \<open>timeout_counter\<close> is a 16-bit \<open>int\<close> that starts at
  \<open>F_CPU * 0.004 / 15\<close>, a constant of the platform, and is given as a parameter. The
  result is \<open>False\<close> when the loop leaves through \<open>return HITECD_ERR_NO_SERVO\<close>.
\<close>

function waitStart :: "16 word \<Rightarrow> servo \<Rightarrow> bool \<times> servo" where
  "waitStart timeout_counter s =
     (case portRead s of (v, s') \<Rightarrow>
        if v then (True, s')
        else if timeout_counter - 1 = 0 then (False, s')
        else waitStart (timeout_counter - 1) s')"
  by pat_completeness auto
termination
proof (relation "measure (\<lambda>(c, s). unat (c - 1))")
  show "wf (measure (\<lambda>(c :: 16 word, s :: servo). unat (c - 1)))"
    by simp
next
  fix timeout_counter :: "16 word" and s x :: "servo" and v xa y
  assume nz: "timeout_counter - 1 \<noteq> 0"
  then have "unat (timeout_counter - 1) \<noteq> 0"
    unfolding unat_eq_zero .
  with unat_minus_one [OF nz]
  have "unat (timeout_counter - 1 - 1) < unat (timeout_counter - 1)"
    by linarith
  then show "((timeout_counter - 1, y), timeout_counter, s)
      \<in> measure (\<lambda>(c, s). unat (c - 1))"
    by simp
qed

declare waitStart.simps [simp del]

definition readBit :: "u8 \<times> servo \<Rightarrow> u8 \<Rightarrow> u8 \<times> servo" where
  "readBit acc m =
     (case acc of (val, s) \<Rightarrow>
        case portRead s of (v, s') \<Rightarrow>
          ((if \<not> v then val OR m else val), DELAY_US_COMPENSATED 868 19 s'))"

definition readByte :: "16 word \<Rightarrow> servo \<Rightarrow> int \<times> servo" where
  "readByte timeout_counter s =
     (case waitStart timeout_counter s of
        (False, s') \<Rightarrow> (HITECD_ERR_NO_SERVO, s')
      | (True, s') \<Rightarrow>
          (let s = DELAY_US_COMPENSATED 1302 32 s' in
           case foldl readBit (0, s) bit_masks of (val, s) \<Rightarrow>
           case portRead s of (stop, s) \<Rightarrow>
             if stop then (HITECD_ERR_CORRUPT, s) else (uint val, s)))"

section \<open>Register protocol\<close>

definition writeReg :: "u8 \<Rightarrow> u16 \<Rightarrow> servo \<Rightarrow> servo" where
  "writeReg reg val s =
     (let old_sreg = SREG s;
          s = cli s;
          s = writeByte 0x96 s;
          s = writeByte 0x00 s;
          s = writeByte reg s;
          s = writeByte 0x02 s;
          low = (ucast (val AND 0xFF) :: u8);
          s = writeByte low s;
          high = (ucast (drop_bit 8 val AND 0xFF) :: u8);
          s = writeByte high s;
          checksum = (word_of_int ((0x00 + uint reg + 0x02 + uint low + uint high) AND 0xFF) :: u8);
          s = writeByte checksum s
      in write_SREG old_sreg s)"

text \<open>
  \<open>readReg\<close> is given in three parts that follow its text: the request, up to the
  release of the line (lines 112 to 129); the seven calls of \<open>readByte\<close> within the
  second critical section and the delay after it (lines 139 to 152); the validation of
  what was received (lines 170 to 181). The argument \<open>val_out\<close> is the content of
  \<open>*val_out\<close> before the call; the result holds its content after the call.
\<close>

definition readReg_request :: "u8 \<Rightarrow> servo \<Rightarrow> servo" where
  "readReg_request reg s =
     (let old_sreg = SREG s;
          s = cli s;
          s = writeByte 0x96 s;
          s = writeByte 0x00 s;
          s = writeByte reg s;
          s = writeByte 0x00 s;
          checksum = (word_of_int ((0x00 + uint reg + 0x00) AND 0xFF) :: u8);
          s = writeByte checksum s;
          s = digitalWrite (pin s) LOW s;
          s = write_SREG old_sreg s;
          s = delay 14 s
      in pinMode (pin s) INPUT_PULLUP s)"

type_synonym response = "int \<times> int \<times> int \<times> int \<times> int \<times> int \<times> int"

definition readReg_response :: "16 word \<Rightarrow> servo \<Rightarrow> response \<times> servo" where
  "readReg_response tc s =
     (let old_sreg = SREG s;
          s = cli s
      in case readByte tc s of (const_0x69, s) \<Rightarrow>
         case readByte tc s of (mystery, s) \<Rightarrow>
         case readByte tc s of (reg2, s) \<Rightarrow>
         case readByte tc s of (const_0x02, s) \<Rightarrow>
         case readByte tc s of (low, s) \<Rightarrow>
         case readByte tc s of (high, s) \<Rightarrow>
         case readByte tc s of (checksum2, s) \<Rightarrow>
           (let s = write_SREG old_sreg s;
                s = delay 1 s
            in ((const_0x69, mystery, reg2, const_0x02, low, high, checksum2), s)))"

definition readReg_validate :: "u8 \<Rightarrow> response \<Rightarrow> u16 \<Rightarrow> int \<times> u16" where
  "readReg_validate reg r val_out =
     (case r of (const_0x69, mystery, reg2, const_0x02, low, high, checksum2) \<Rightarrow>
        if const_0x69 \<noteq> 0x69 then (HITECD_ERR_CORRUPT, val_out)
        else if mystery < 0 then (HITECD_ERR_CORRUPT, val_out)
        else if reg2 \<noteq> uint reg then (HITECD_ERR_CORRUPT, val_out)
        else if const_0x02 \<noteq> 0x02 then (HITECD_ERR_CORRUPT, val_out)
        else if low < 0 then (HITECD_ERR_CORRUPT, val_out)
        else if high < 0 then (HITECD_ERR_CORRUPT, val_out)
        else if checksum2 \<noteq> (mystery + reg2 + const_0x02 + low + high) AND 0xFF
          then (HITECD_ERR_CORRUPT, val_out)
        else (HITECD_OK, word_of_int (low + push_bit 8 high)))"

definition readReg :: "16 word \<Rightarrow> u8 \<Rightarrow> u16 \<Rightarrow> servo \<Rightarrow> (int \<times> u16) \<times> servo" where
  "readReg tc reg val_out s =
     (let s = readReg_request reg s
      in case digitalRead (pin s) s of (level, s) \<Rightarrow>
         if level \<noteq> LOW then
           (let s = delay 2 s;
                s = pinMode (pin s) OUTPUT s
            in ((HITECD_ERR_NO_SERVO, val_out), s))
         else
           case readReg_response tc s of (r, s) \<Rightarrow>
           case digitalRead (pin s) s of (level, s) \<Rightarrow>
             if level \<noteq> HIGH then
               (let s = pinMode (pin s) OUTPUT s
                in ((HITECD_ERR_NO_RESISTOR, val_out), s))
             else
               (let s = pinMode (pin s) OUTPUT s
                in (readReg_validate reg r val_out, s)))"

text \<open>
  \<open>readModelNumber\<close>: the local \<open>uint16_t modelNumber\<close> starts with an indeterminate
  content, the argument \<open>modelNumber0\<close>, and holds \<open>modelNumber1\<close> after the call of
  \<open>readReg\<close>. The \<open>return modelNumber\<close> converts it to the 16-bit \<open>int\<close>.
\<close>

definition readModelNumber :: "16 word \<Rightarrow> u16 \<Rightarrow> servo \<Rightarrow> int \<times> servo" where
  "readModelNumber tc modelNumber0 s =
     (case readReg tc 0x00 modelNumber0 s of ((res, modelNumber1), s) \<Rightarrow>
        if res < 0 then (res, s) else (sint modelNumber1, s))"

section \<open>Notions used in the statements\<close>

text \<open>The events an operation added to the record of hardware accesses.\<close>

definition new_events :: "servo \<Rightarrow> servo \<Rightarrow> (u8 \<times> event) list" where
  "new_events s s' = drop (length (hw_trace s)) (hw_trace s')"

text \<open>The levels the output register drove the line to, in order.\<close>

fun driven :: "event \<Rightarrow> bool list" where
  "driven (PortSet r m) = [HIGH]"
| "driven (PortClear r m) = [LOW]"
| "driven e = []"

definition line_levels :: "(u8 \<times> event) list \<Rightarrow> bool list" where
  "line_levels tr = concat (map (\<lambda>x. driven (snd x)) tr)"

text \<open>
  The frame of one byte as the specification words it: the start bit is HIGH, each data
  bit is HIGH for logical 0 and LOW for logical 1, least significant bit first, and the
  stop bit is LOW.
\<close>

definition frame_levels :: "u8 \<Rightarrow> bool list" where
  "frame_levels b = HIGH # map (\<lambda>i. \<not> bit b i) [0, 1, 2, 3, 4, 5, 6, 7] @ [LOW]"

text \<open>
  The write request as the specification words it: \<open>0x96, 0x00, reg, 0x02, valLo, valHi,
  checksum\<close> with \<open>checksum = (0x00 + reg + 0x02 + valLo + valHi) mod 256\<close>.
\<close>

definition write_request :: "u8 \<Rightarrow> u16 \<Rightarrow> u8 list" where
  "write_request reg val =
     (let valLo = unat val mod 256;
          valHi = unat val div 256;
          checksum = (0x00 + unat reg + 0x02 + valLo + valHi) mod 256
      in [0x96, 0x00, reg, 0x02, word_of_nat valLo, word_of_nat valHi, word_of_nat checksum])"

text \<open>The events of one iteration, and of one whole call, of \<open>writeByte\<close>.\<close>

definition writeBit_event :: "servo \<Rightarrow> u8 \<Rightarrow> u8 \<Rightarrow> event" where
  "writeBit_event s val m =
     (if val AND m \<noteq> 0 then PortClear (pinOutputRegister s) (pinBitMask s)
      else PortSet (pinOutputRegister s) (pinBitMask s))"

definition writeByte_events :: "servo \<Rightarrow> u8 \<Rightarrow> (u8 \<times> event) list" where
  "writeByte_events s val =
     map (Pair (SREG s))
       ([PortSet (pinOutputRegister s) (pinBitMask s), DelayUsCompensated 868 25] @
        concat (map (\<lambda>m. [writeBit_event s val m, DelayUsCompensated 868 25]) bit_masks) @
        [PortClear (pinOutputRegister s) (pinBitMask s), DelayUsCompensated 868 25])"

text \<open>
  Three points of a call of \<open>readReg\<close>: the level read at the first check of the line
  (line 133), the seven results of \<open>readByte\<close>, and the level read at the second check
  (line 157).
\<close>

definition first_check :: "u8 \<Rightarrow> servo \<Rightarrow> bool \<times> servo" where
  "first_check reg s = (let s = readReg_request reg s in digitalRead (pin s) s)"

definition received :: "16 word \<Rightarrow> u8 \<Rightarrow> servo \<Rightarrow> response \<times> servo" where
  "received tc reg s = readReg_response tc (snd (first_check reg s))"

definition second_check :: "16 word \<Rightarrow> u8 \<Rightarrow> servo \<Rightarrow> bool \<times> servo" where
  "second_check tc reg s = (let s = snd (received tc reg s) in digitalRead (pin s) s)"

text \<open>
  The two ways in which \<open>readByte\<close> fails: no start bit within the time limit, and a stop
  bit that is not at the idle level.
\<close>

definition timed_out :: "int \<Rightarrow> bool" where
  "timed_out b = (b = HITECD_ERR_NO_SERVO)"

definition framing_fault :: "int \<Rightarrow> bool" where
  "framing_fault b = (b = HITECD_ERR_CORRUPT)"

text \<open>
  The violations that the specification lists for a response: a wrong echo byte, a wrong
  register echo, a wrong constant, a wrong checksum, or a byte that timed out.
\<close>

definition listed_violation :: "u8 \<Rightarrow> response \<Rightarrow> bool" where
  "listed_violation reg r =
     (case r of (echo, mystery, regEcho, const, valLo, valHi, checksum) \<Rightarrow>
        echo \<noteq> 0x69 \<or> regEcho \<noteq> uint reg \<or> const \<noteq> 0x02 \<or>
        checksum \<noteq> (mystery + regEcho + 0x02 + valLo + valHi) mod 256 \<or>
        timed_out echo \<or> timed_out mystery \<or> timed_out regEcho \<or> timed_out const \<or>
        timed_out valLo \<or> timed_out valHi \<or> timed_out checksum)"

definition any_framing_fault :: "response \<Rightarrow> bool" where
  "any_framing_fault r =
     (case r of (echo, mystery, regEcho, const, valLo, valHi, checksum) \<Rightarrow>
        framing_fault echo \<or> framing_fault mystery \<or> framing_fault regEcho \<or>
        framing_fault const \<or> framing_fault valLo \<or> framing_fault valHi \<or>
        framing_fault checksum)"

text \<open>
  What the line shows while the servo answers a read of register \<open>reg\<close>: it holds the
  line LOW at the first check, sends the frames of the given bytes, and the line is HIGH
  at the second check. A frame with a framing fault ends on a HIGH stop bit.
\<close>

definition faulty_frame :: "u8 \<Rightarrow> bool list" where
  "faulty_frame b = butlast (frame_levels b) @ [HIGH]"

definition answer :: "bool list list \<Rightarrow> bool list" where
  "answer frames = LOW # concat frames @ [HIGH]"

text \<open>What \<open>readByte\<close> can return: one of its two error codes, or a byte.\<close>

definition rx_value :: "int \<Rightarrow> bool" where
  "rx_value b = (timed_out b \<or> framing_fault b \<or> (0 \<le> b \<and> b < 256))"

definition rx_values :: "response \<Rightarrow> bool" where
  "rx_values r =
     (case r of (echo, mystery, regEcho, const, valLo, valHi, checksum) \<Rightarrow>
        rx_value echo \<and> rx_value mystery \<and> rx_value regEcho \<and> rx_value const \<and>
        rx_value valLo \<and> rx_value valHi \<and> rx_value checksum)"

text \<open>
  The line as \<open>readByte\<close> sees it: ten successive levels that begin with a start bit
  are a frame; its data levels give a byte, each LOW level setting the bit of its
  position, and a HIGH level in the place of the stop bit is a framing fault.
\<close>

definition data_byte :: "bool list \<Rightarrow> u8" where
  "data_byte ds = foldl (\<lambda>val (d, m). if \<not> d then val OR m else val) 0 (zip ds bit_masks)"

definition decode_frame :: "bool list \<Rightarrow> int" where
  "decode_frame f =
     (if f ! 9 then HITECD_ERR_CORRUPT else uint (data_byte (take 8 (drop 1 f))))"

definition framed :: "bool list \<Rightarrow> bool" where
  "framed f = (length f = 10 \<and> hd f = HIGH)"

text \<open>The bench servo with the levels that the line will show.\<close>

definition bench_reading :: "bool list \<Rightarrow> servo" where
  "bench_reading levels = bench_servo\<lparr>line_in := levels\<rparr>"

text \<open>
  Runs on the bench: a read of register 0 that the servo answers with model number 485;
  the same answer with one bit of the low byte flipped; an answer whose mystery byte has
  its data levels spell 0xFD and its stop bit HIGH; no servo on the line; a servo that
  answers on a line without the pull-up resistor.
\<close>

definition framing_fault_run :: servo where
  "framing_fault_run =
     bench_reading (answer [frame_levels 0x69, faulty_frame 0xFD, frame_levels 0x00,
       frame_levels 0x02, frame_levels 0x00, frame_levels 0x01, frame_levels 0x00])"

definition model_number_run :: servo where
  "model_number_run =
     bench_reading (answer [frame_levels 0x69, frame_levels 0x00, frame_levels 0x00,
       frame_levels 0x02, frame_levels 0xE5, frame_levels 0x01, frame_levels 0xE8])"

definition corrupted_run :: servo where
  "corrupted_run =
     bench_reading (answer [frame_levels 0x69, frame_levels 0x00, frame_levels 0x00,
       frame_levels 0x02, frame_levels 0xE4, frame_levels 0x01, frame_levels 0xE8])"

definition no_servo_run :: servo where
  "no_servo_run = bench_reading [HIGH]"

definition no_resistor_run :: servo where
  "no_resistor_run =
     bench_reading (LOW # concat [frame_levels 0x69, frame_levels 0x00, frame_levels 0x00,
       frame_levels 0x02, frame_levels 0xE5, frame_levels 0x01, frame_levels 0xE8] @ [LOW])"

text \<open>
  The critical sections. The events whose timing matters are the accesses to the port
  registers and the bit delays; the settle delays are the calls of \<open>delay\<close>. Interrupts
  are suppressed while bit 7 of \<open>SREG\<close> is clear. An event recorded with \<open>SREG\<close> value
  \<open>sreg\<close> respects the window, for a call entered with \<open>SREG = sreg0\<close>, when it is
  suppressed if its timing matters, and has \<open>sreg = sreg0\<close> if it is a settle delay.
\<close>

fun timing_critical :: "event \<Rightarrow> bool" where
  "timing_critical (PortSet r m) = True"
| "timing_critical (PortClear r m) = True"
| "timing_critical (PortRead r m v) = True"
| "timing_critical (DelayUsCompensated us cycles) = True"
| "timing_critical e = False"

fun settle_delay :: "event \<Rightarrow> bool" where
  "settle_delay (Delay ms) = True"
| "settle_delay e = False"

definition suppressed :: "u8 \<Rightarrow> bool" where
  "suppressed sreg = (\<not> bit sreg 7)"

definition window_ok :: "u8 \<Rightarrow> u8 \<times> event \<Rightarrow> bool" where
  "window_ok sreg0 x =
     ((if timing_critical (snd x) then suppressed (fst x) else True) \<and>
      (if settle_delay (snd x) then fst x = sreg0 else True))"

text \<open>
  \<open>emits P s s'\<close>: the record of \<open>s'\<close> extends that of \<open>s\<close> by events that satisfy \<open>P\<close>.
  \<open>steady s s'\<close>: from \<open>s\<close> to \<open>s'\<close> only timing-critical events were recorded, all
  with the \<open>SREG\<close> of \<open>s\<close>, which \<open>s'\<close> still has. \<open>outside sreg0 s s'\<close>: both states have
  \<open>SREG = sreg0\<close> and the events between them respect the window.
\<close>

definition emits :: "(u8 \<times> event \<Rightarrow> bool) \<Rightarrow> servo \<Rightarrow> servo \<Rightarrow> bool" where
  "emits P s s' = (\<exists>ev. hw_trace s' = hw_trace s @ ev \<and> list_all P ev)"

definition steady :: "servo \<Rightarrow> servo \<Rightarrow> bool" where
  "steady s s' =
     (SREG s' = SREG s \<and> emits (\<lambda>x. fst x = SREG s \<and> timing_critical (snd x)) s s')"

definition outside :: "u8 \<Rightarrow> servo \<Rightarrow> servo \<Rightarrow> bool" where
  "outside sreg0 s s' = (SREG s = sreg0 \<and> SREG s' = sreg0 \<and> emits (window_ok sreg0) s s')"

section \<open>Unit views of the current position (declared in HitecDServo.h)\<close>


text \<open>
  Modelled from the spec: the body of the conversion is missing from the sources. This is
  the linear segment over the pulse widths [850, 1500], in exact microseconds: the line
  through \<open>(raw850, 850)\<close> and \<open>(raw1500, 1500)\<close>.
\<close>

definition lower_segment :: "int \<Rightarrow> int \<Rightarrow> int \<Rightarrow> rat" where
  "lower_segment raw850 raw1500 raw =
     1500 - 650 * of_int (raw1500 - raw) / of_int (raw1500 - raw850)"

text \<open>
  Modelled from the spec: the body of the conversion is missing from the sources. This is
  the linear segment over the pulse widths [1500, 2150], in exact microseconds: the line
  through \<open>(raw1500, 1500)\<close> and \<open>(raw2150, 2150)\<close>.
\<close>

definition upper_segment :: "int \<Rightarrow> int \<Rightarrow> int \<Rightarrow> rat" where
  "upper_segment raw1500 raw2150 raw =
     1500 + 650 * of_int (raw - raw1500) / of_int (raw2150 - raw1500)"

text \<open>
  Modelled from the spec: the bodies of \<open>readCurrentMicroseconds\<close> and
  \<open>readCurrentQuarterMicros\<close> are missing from the sources. The pulse width of a raw angle
  is an integer number of units, \<open>q\<close> units to the microsecond (\<open>q = 1\<close> for microseconds,
  \<open>q = 4\<close> for quarter-microseconds). A raw angle below \<open>raw1500\<close> is taken on the lower
  segment, any other on the upper one, also beyond the outer calibration points. The spec
  does not say how a value between two units becomes an integer, so the rounding is a
  parameter, one for each segment: \<open>rnd_lo\<close> and \<open>rnd_hi\<close> (floor, ceiling, truncation of
  the offset from a calibration point as in integer division, rounding to nearest).
\<close>

definition rawAngleToUnits ::
  "int \<Rightarrow> (rat \<Rightarrow> int) \<Rightarrow> (rat \<Rightarrow> int) \<Rightarrow> int \<Rightarrow> int \<Rightarrow> int \<Rightarrow> int \<Rightarrow> int" where
  "rawAngleToUnits q rnd_lo rnd_hi raw850 raw1500 raw2150 raw =
     (if raw < raw1500 then rnd_lo (of_int q * lower_segment raw850 raw1500 raw)
      else rnd_hi (of_int q * upper_segment raw1500 raw2150 raw))"

section \<open>Arithmetic of bytes\<close>

lemmas HITECD_defs =
  HITECD_OK_def HITECD_ERR_NO_SERVO_def HITECD_ERR_NO_RESISTOR_def
  HITECD_ERR_CORRUPT_def HITECD_ERR_UNSUPPORTED_MODEL_def HITECD_ERR_NOT_ATTACHED_def

lemma int_and_ff: "(a :: int) AND 0xFF = a mod 256"
proof -
  have "(0xFF :: int) = mask 8"
    by (simp add: mask_eq_exp_minus_1)
  then have "a AND 0xFF = take_bit 8 a"
    by (simp only: take_bit_eq_mask)
  then show ?thesis
    by (simp add: take_bit_eq_mod)
qed

lemma nat_and_ff: "(a :: nat) AND 0xFF = a mod 256"
proof -
  have "(0xFF :: nat) = mask 8"
    by (simp add: mask_eq_exp_minus_1)
  then have "a AND 0xFF = take_bit 8 a"
    by (simp only: take_bit_eq_mask)
  then show ?thesis
    by (simp add: take_bit_eq_mod)
qed

lemma unat_and_ff: "unat ((w :: u16) AND 0xFF) = unat w mod 256"
  by (simp add: unsigned_and_eq nat_and_ff)

lemma unat_u16_bound: "unat (val :: u16) < 65536"
  using unsigned_less [of val, where ?'a = nat] by simp

lemma unat_u8_bound: "unat (b :: u8) < 256"
  using unsigned_less [of b, where ?'a = nat] by simp

lemma low_byte: "(ucast ((val :: u16) AND 0xFF) :: u8) = word_of_nat (unat val mod 256)"
  by (subst word_unat_eq_iff)
    (simp only: unsigned_ucast_eq unat_of_nat unat_and_ff take_bit_eq_mod)

lemma unat_drop8: "unat (drop_bit 8 (val :: u16)) = unat val div 256"
proof -
  have "unat (drop_bit 8 val) = drop_bit 8 (unat val)"
    by (rule unat_drop_bit_eq)
  also have "\<dots> = unat val div 2 ^ 8"
    by (rule drop_bit_eq_div)
  finally show ?thesis
    by simp
qed

lemma high_byte:
  "(ucast (drop_bit 8 (val :: u16) AND 0xFF) :: u8) = word_of_nat (unat val div 256)"
proof -
  have "unat (drop_bit 8 val AND 0xFF) = unat val div 256 mod 256"
    by (simp only: unat_and_ff unat_drop8)
  then show ?thesis
    apply (subst word_unat_eq_iff)
    apply (simp only: unsigned_ucast_eq unat_of_nat take_bit_eq_mod)
    apply simp
    done
qed

lemma unat_low: "unat (word_of_nat (unat (val :: u16) mod 256) :: u8) = unat val mod 256"
  by (simp add: unat_of_nat)

lemma unat_high: "unat (word_of_nat (unat (val :: u16) div 256) :: u8) = unat val div 256"
  using unat_u16_bound [of val] by (simp add: unat_of_nat)

lemma checksum_byte:
  "(word_of_int ((0x00 + uint (reg :: u8) + 0x02 + uint (lo :: u8) + uint (hi :: u8)) AND 0xFF) :: u8)
     = word_of_nat ((0x00 + unat reg + 0x02 + unat lo + unat hi) mod 256)"
proof -
  have "(0x00 + uint reg + 0x02 + uint lo + uint hi) AND 0xFF
      = (0x00 + uint reg + 0x02 + uint lo + uint hi) mod 256"
    by (rule int_and_ff)
  also have "\<dots> = int ((0x00 + unat reg + 0x02 + unat lo + unat hi) mod 256)"
    by (simp only: uint_nat zmod_int of_nat_add of_nat_numeral) simp
  finally show ?thesis
    by (simp only: word_of_int_nat of_nat_0_le_iff nat_int)
qed

lemma and_mask_bit:
  fixes b :: u8
  shows "(b AND 1 = 0) = (\<not> bit b 0)" "(b AND 2 = 0) = (\<not> bit b 1)"
    "(b AND 4 = 0) = (\<not> bit b 2)" "(b AND 8 = 0) = (\<not> bit b 3)"
    "(b AND 16 = 0) = (\<not> bit b 4)" "(b AND 32 = 0) = (\<not> bit b 5)"
    "(b AND 64 = 0) = (\<not> bit b 6)" "(b AND 128 = 0) = (\<not> bit b 7)"
  using and_exp_eq_0_iff_not_bit [of b 0] and_exp_eq_0_iff_not_bit [of b 1]
    and_exp_eq_0_iff_not_bit [of b 2] and_exp_eq_0_iff_not_bit [of b 3]
    and_exp_eq_0_iff_not_bit [of b 4] and_exp_eq_0_iff_not_bit [of b 5]
    and_exp_eq_0_iff_not_bit [of b 6] and_exp_eq_0_iff_not_bit [of b 7]
  by simp_all

section \<open>The record of hardware accesses\<close>

lemma writeBit_eq:
  "writeBit val s m =
     s\<lparr>hw_trace := hw_trace s @
        [(SREG s, writeBit_event s val m), (SREG s, DelayUsCompensated 868 25)]\<rparr>"
  by (simp add: writeBit_def writeBit_event_def portSet_def portClear_def
      DELAY_US_COMPENSATED_def emit_def)

lemma writeBit_event_trace [simp]:
  "writeBit_event (s\<lparr>hw_trace := t\<rparr>) val m = writeBit_event s val m"
  by (simp add: writeBit_event_def)

lemma writeByte_eq:
  "writeByte val s = s\<lparr>hw_trace := hw_trace s @ writeByte_events s val\<rparr>"
  by (simp add: writeByte_def writeByte_events_def bit_masks_def writeBit_eq portSet_def
      portClear_def DELAY_US_COMPENSATED_def emit_def Let_def)

lemma driven_writeBit_event:
  "driven (writeBit_event s val m) = [val AND m = 0]"
  by (simp add: writeBit_event_def)

lemma line_levels_writeByte:
  "line_levels (writeByte_events s val) = frame_levels val"
  by (simp add: line_levels_def writeByte_events_def frame_levels_def bit_masks_def
      driven_writeBit_event and_mask_bit)

lemma line_levels_append:
  "line_levels (xs @ ys) = line_levels xs @ line_levels ys"
  by (simp add: line_levels_def)

lemma new_events_append:
  "hw_trace s' = hw_trace s @ ev \<Longrightarrow> new_events s s' = ev"
  by (simp add: new_events_def)

lemma writeBytes_trace:
  "\<exists>ev. hw_trace (foldl (\<lambda>s b. writeByte b s) s bs) = hw_trace s @ ev \<and>
        line_levels ev = concat (map frame_levels bs)"
proof (induction bs arbitrary: s)
  case Nil
  show ?case
    by (simp add: line_levels_def)
next
  case (Cons b bs)
  from Cons.IH [of "writeByte b s"] obtain ev where
    ev: "hw_trace (foldl (\<lambda>s b. writeByte b s) (writeByte b s) bs) = hw_trace (writeByte b s) @ ev"
      "line_levels ev = concat (map frame_levels bs)"
    by blast
  have "hw_trace (foldl (\<lambda>s b. writeByte b s) s (b # bs)) = hw_trace s @ (writeByte_events s b @ ev)"
    using ev(1) by (simp add: writeByte_eq)
  moreover have "line_levels (writeByte_events s b @ ev) = concat (map frame_levels (b # bs))"
    using ev(2) by (simp add: line_levels_append line_levels_writeByte)
  ultimately show ?case
    by blast
qed

section \<open>Properties\<close>

text \<open>
  C10. For every pin argument \<open>p\<close>, \<open>attached()\<close> after \<open>attach(p)\<close> is true except
  for \<open>p = -1\<close>: \<open>attach(-1)\<close> still calls \<open>pinMode\<close> and \<open>digitalWrite\<close> on the pin,
  but \<open>attached()\<close> answers as it does after \<open>detach()\<close>, since \<open>-1\<close> is the value that
  marks a servo as not attached.
\<close>

theorem attach_then_attached:
  "attached (attach b p s) = (p \<noteq> - 1) \<and>
   new_events s (attach b (- 1) s) =
     [(SREG s, PinMode (- 1) OUTPUT), (SREG s, DigitalWrite (- 1) LOW)] \<and>
   attached (attach b (- 1) s) = attached (detach s) \<and>
   pin (attach b (- 1) s) = pin (detach s)"
  by (simp add: attached_def attach_def detach_def pinMode_def digitalWrite_def emit_def
      Let_def new_events_def)

lemma unat_drop8_mod: "unat (drop_bit 8 (val :: u16)) mod 256 = unat val div 256"
  using unat_u16_bound [of val] by (simp add: unat_drop8)

lemma writeReg_as_fold:
  "writeReg reg val s =
     write_SREG (SREG s) (foldl (\<lambda>s b. writeByte b s) (cli s) (write_request reg val))"
  unfolding writeReg_def write_request_def Let_def
  unfolding high_byte
  unfolding low_byte
  unfolding checksum_byte unat_low unat_high
  by (simp only: foldl.simps)

lemma writeReg_levels:
  "line_levels (new_events s (writeReg reg val s)) = concat (map frame_levels (write_request reg val))"
proof -
  obtain ev where
    ev: "hw_trace (foldl (\<lambda>s b. writeByte b s) (cli s) (write_request reg val)) = hw_trace (cli s) @ ev"
      "line_levels ev = concat (map frame_levels (write_request reg val))"
    using writeBytes_trace [of "cli s" "write_request reg val"] by blast
  have "hw_trace (writeReg reg val s) =
      hw_trace s @ ((SREG s, Cli) # ev @
        [(SREG (foldl (\<lambda>s b. writeByte b s) (cli s) (write_request reg val)), WriteSREG (SREG s))])"
    using ev(1) by (simp add: writeReg_as_fold write_SREG_def emit_def cli_def)
  then have "new_events s (writeReg reg val s) = (SREG s, Cli) # ev @
        [(SREG (foldl (\<lambda>s b. writeByte b s) (cli s) (write_request reg val)), WriteSREG (SREG s))]"
    by (rule new_events_append)
  then show ?thesis
    using ev(2) by (simp add: line_levels_def)
qed

text \<open>
  C2. For every register address \<open>reg\<close> and every 16-bit value \<open>val\<close>, a register
  write sends exactly the seven bytes \<open>0x96, 0x00, reg, 0x02, valLo, valHi, checksum\<close> in
  that order, with \<open>valLo = val mod 256\<close>, \<open>valHi = val div 256\<close> and
  \<open>checksum = (0x00 + reg + 0x02 + valLo + valHi) mod 256\<close>: \<open>writeReg\<close> is the calls of
  \<open>writeByte\<close> on these bytes between \<open>cli()\<close> and the restoring of \<open>SREG\<close>, and the
  levels it drives the line to are the frames of these bytes. For \<open>reg = 0x00\<close>,
  \<open>val = 0x0000\<close> the checksum is \<open>0x02\<close>; for \<open>reg = 0x0A\<close>, \<open>val = 0x1234\<close> it is
  \<open>(0x0A + 0x02 + 0x34 + 0x12) & 0xFF\<close>.
\<close>

theorem writeReg_sends_write_request:
  "writeReg reg val s =
     write_SREG (SREG s) (foldl (\<lambda>s b. writeByte b s) (cli s) (write_request reg val)) \<and>
   line_levels (new_events s (writeReg reg val s)) =
     concat (map frame_levels (write_request reg val)) \<and>
   length (write_request reg val) = 7 \<and>
   write_request 0x00 0x0000 = [0x96, 0x00, 0x00, 0x02, 0x00, 0x00, 0x02] \<and>
   write_request 0x0A 0x1234 =
     [0x96, 0x00, 0x0A, 0x02, 0x34, 0x12, (0x0A + 0x02 + 0x34 + 0x12) AND 0xFF]"
proof -
  have "length (write_request reg val) = 7"
    by (simp add: write_request_def Let_def)
  moreover have "write_request 0x00 0x0000 = [0x96, 0x00, 0x00, 0x02, 0x00, 0x00, 0x02]"
    by (simp add: write_request_def Let_def)
  moreover have "write_request 0x0A 0x1234 =
     [0x96, 0x00, 0x0A, 0x02, 0x34, 0x12, (0x0A + 0x02 + 0x34 + 0x12) AND 0xFF]"
    by (simp add: write_request_def Let_def)
  ultimately show ?thesis
    using writeReg_as_fold [of reg val s] writeReg_levels [of s reg val] by blast
qed

text \<open>
  C8 as stated fails: \<open>detach()\<close> does not clear the cached model number or the three
  cached raw angles; after it they hold what they held before.
\<close>

theorem detach_clears_cache_counterexample:
  "servo.modelNumber (detach bench_servo) = 485 \<and>
   servo.rawAngleFor850 (detach bench_servo) = 3381 \<and>
   servo.rawAngleFor1500 (detach bench_servo) = 8192 \<and>
   servo.rawAngleFor2150 (detach bench_servo) = 13002"
  by (simp add: detach_def bench_servo_def)

text \<open>
  C8, amended. \<open>detach()\<close> only releases the pin: it sets \<open>pin\<close> to \<open>-1\<close>, so that
  \<open>attached()\<close> is false, accesses no hardware, and leaves the cached model number and
  the three cached raw angles unchanged.
\<close>

theorem detach_frame:
  "pin (detach s) = - 1 \<and> attached (detach s) = False \<and>
   servo.modelNumber (detach s) = servo.modelNumber s \<and>
   servo.rawAngleFor850 (detach s) = servo.rawAngleFor850 s \<and>
   servo.rawAngleFor1500 (detach s) = servo.rawAngleFor1500 s \<and>
   servo.rawAngleFor2150 (detach s) = servo.rawAngleFor2150 s \<and>
   new_events s (detach s) = []"
  by (simp add: detach_def attached_def new_events_def)

section \<open>Register reads\<close>

lemma add_push_bit_or:
  fixes lo hi :: int
  assumes "0 \<le> lo" "lo < 256"
  shows "lo + push_bit 8 hi = lo OR push_bit 8 hi"
proof -
  have "take_bit 8 lo = lo"
    using assms by (simp add: take_bit_int_eq_self)
  then have "lo + push_bit 8 hi = concat_bit 8 lo hi"
    by (simp only: concat_bit_eq)
  also have "\<dots> = lo OR push_bit 8 hi"
    using \<open>take_bit 8 lo = lo\<close> by (simp only: concat_bit_def)
  finally show ?thesis .
qed

lemma word_of_low_high:
  fixes lo hi :: int
  assumes "0 \<le> lo" "lo < 256"
  shows "(word_of_int (lo + push_bit 8 hi) :: u16) = word_of_int lo OR push_bit 8 (word_of_int hi)"
  by (simp only: add_push_bit_or [OF assms] of_int_or_eq of_int_push_bit)

lemma uint_u8_bound: "uint (b :: u8) < 256"
  using uint_lt2p [of b] by simp

lemma readByte_range: "rx_value (fst (readByte tc s))"
  by (simp add: readByte_def rx_value_def timed_out_def framing_fault_def Let_def
      case_prod_beta uint_u8_bound split: bool.splits)

lemma readReg_response_range: "rx_values (fst (readReg_response tc s))"
  by (simp add: readReg_response_def Let_def rx_values_def case_prod_beta readByte_range)

lemma pin_emit [simp]: "pin (emit e s) = pin s"
  by (simp add: emit_def)

lemma readReg_no_servo:
  assumes "fst (first_check reg s) \<noteq> LOW"
  shows "readReg tc reg v s =
     ((HITECD_ERR_NO_SERVO, v),
      pinMode (pin (snd (first_check reg s))) OUTPUT (delay 2 (snd (first_check reg s))))"
  using assms
  by (simp add: readReg_def first_check_def Let_def case_prod_beta delay_def)

lemma readReg_no_resistor:
  assumes "fst (first_check reg s) = LOW" "fst (second_check tc reg s) \<noteq> HIGH"
  shows "readReg tc reg v s =
     ((HITECD_ERR_NO_RESISTOR, v),
      pinMode (pin (snd (second_check tc reg s))) OUTPUT (snd (second_check tc reg s)))"
  using assms
  by (simp add: readReg_def first_check_def second_check_def received_def Let_def
      case_prod_beta)

lemma readReg_validated:
  assumes "fst (first_check reg s) = LOW" "fst (second_check tc reg s) = HIGH"
  shows "readReg tc reg v s =
     (readReg_validate reg (fst (received tc reg s)) v,
      pinMode (pin (snd (second_check tc reg s))) OUTPUT (snd (second_check tc reg s)))"
  using assms
  by (simp add: readReg_def first_check_def second_check_def received_def Let_def
      case_prod_beta)


lemma readReg_validate_if:
  "readReg_validate reg (echo, mystery, regEcho, c, valLo, valHi, checksum) v =
     (if echo = 0x69 \<and> 0 \<le> mystery \<and> regEcho = uint reg \<and> c = 0x02 \<and> 0 \<le> valLo \<and>
         0 \<le> valHi \<and> checksum = (mystery + regEcho + c + valLo + valHi) mod 256
      then (HITECD_OK, word_of_int (valLo + push_bit 8 valHi))
      else (HITECD_ERR_CORRUPT, v))"
  by (simp add: readReg_validate_def int_and_ff)

lemma rx_value_byte:
  "rx_value b \<Longrightarrow> \<not> timed_out b \<Longrightarrow> \<not> framing_fault b \<Longrightarrow> 0 \<le> b \<and> b < 256"
  by (simp add: rx_value_def)

lemma nonneg_not_failed:
  "0 \<le> b \<Longrightarrow> \<not> timed_out b \<and> \<not> framing_fault b"
  by (simp add: timed_out_def framing_fault_def HITECD_defs)

lemma passes_iff:
  assumes "rx_values (echo, mystery, regEcho, c, valLo, valHi, checksum)"
  shows "(echo = 0x69 \<and> 0 \<le> mystery \<and> regEcho = uint reg \<and> c = 0x02 \<and> 0 \<le> valLo \<and>
          0 \<le> valHi \<and> checksum = (mystery + regEcho + c + valLo + valHi) mod 256) =
         (\<not> (listed_violation reg (echo, mystery, regEcho, c, valLo, valHi, checksum) \<or>
             any_framing_fault (echo, mystery, regEcho, c, valLo, valHi, checksum)))"
    (is "?pass = (\<not> (?listed \<or> ?framing))")
proof
  assume p: ?pass
  then have "0 \<le> echo" "0 \<le> mystery" "0 \<le> regEcho" "0 \<le> c" "0 \<le> valLo" "0 \<le> valHi"
    "0 \<le> checksum"
    by simp_all
  then have ok: "\<not> timed_out echo" "\<not> framing_fault echo" "\<not> timed_out mystery"
    "\<not> framing_fault mystery" "\<not> timed_out regEcho" "\<not> framing_fault regEcho"
    "\<not> timed_out c" "\<not> framing_fault c" "\<not> timed_out valLo" "\<not> framing_fault valLo"
    "\<not> timed_out valHi" "\<not> framing_fault valHi" "\<not> timed_out checksum"
    "\<not> framing_fault checksum"
    by (simp_all add: nonneg_not_failed)
  from p have "echo = 0x69" "regEcho = uint reg" "c = 0x02"
    "checksum = (mystery + regEcho + 0x02 + valLo + valHi) mod 256"
    by simp_all
  with ok show "\<not> (?listed \<or> ?framing)"
    by (simp add: listed_violation_def any_framing_fault_def)
next
  assume n: "\<not> (?listed \<or> ?framing)"
  then have eqs: "echo = 0x69" "regEcho = uint reg" "c = 0x02"
    "checksum = (mystery + regEcho + 0x02 + valLo + valHi) mod 256"
    and nf: "\<not> timed_out mystery" "\<not> framing_fault mystery" "\<not> timed_out valLo"
      "\<not> framing_fault valLo" "\<not> timed_out valHi" "\<not> framing_fault valHi"
    by (simp_all add: listed_violation_def any_framing_fault_def)
  from assms have "rx_value mystery" "rx_value valLo" "rx_value valHi"
    by (simp_all add: rx_values_def)
  with nf have "0 \<le> mystery" "0 \<le> valLo" "0 \<le> valHi"
    by (simp_all add: rx_value_byte)
  with eqs show ?pass
    by simp
qed

lemma readReg_validate_eq:
  assumes "rx_values (echo, mystery, regEcho, c, valLo, valHi, checksum)"
  shows "readReg_validate reg (echo, mystery, regEcho, c, valLo, valHi, checksum) v =
     (if listed_violation reg (echo, mystery, regEcho, c, valLo, valHi, checksum) \<or>
         any_framing_fault (echo, mystery, regEcho, c, valLo, valHi, checksum)
      then (HITECD_ERR_CORRUPT, v)
      else (HITECD_OK, word_of_int valLo OR push_bit 8 (word_of_int valHi)))"
proof (cases "listed_violation reg (echo, mystery, regEcho, c, valLo, valHi, checksum) \<or>
         any_framing_fault (echo, mystery, regEcho, c, valLo, valHi, checksum)")
  case True
  with passes_iff [OF assms, of reg]
  have "\<not> (echo = 0x69 \<and> 0 \<le> mystery \<and> regEcho = uint reg \<and> c = 0x02 \<and> 0 \<le> valLo \<and>
          0 \<le> valHi \<and> checksum = (mystery + regEcho + c + valLo + valHi) mod 256)"
    by blast
  with True show ?thesis
    by (simp only: readReg_validate_if if_True if_False)
next
  case False
  with passes_iff [OF assms, of reg]
  have p: "echo = 0x69 \<and> 0 \<le> mystery \<and> regEcho = uint reg \<and> c = 0x02 \<and> 0 \<le> valLo \<and>
          0 \<le> valHi \<and> checksum = (mystery + regEcho + c + valLo + valHi) mod 256"
    by blast
  from assms False have "rx_value valLo" "\<not> timed_out valLo" "\<not> framing_fault valLo"
    by (simp_all add: rx_values_def listed_violation_def any_framing_fault_def)
  then have lo: "0 \<le> valLo" "valLo < 256"
    by (simp_all add: rx_value_byte)
  have v: "readReg_validate reg (echo, mystery, regEcho, c, valLo, valHi, checksum) v =
      (HITECD_OK, word_of_int (valLo + push_bit 8 valHi))"
    unfolding readReg_validate_if using p by (rule if_P)
  show ?thesis
    by (subst if_not_P [OF False]) (simp only: v word_of_low_high [OF lo])
qed

section \<open>Frames on the line\<close>

lemma and_bit_mask:
  fixes b :: u8
  shows "(if bit b n then 2 ^ n else 0) = b AND 2 ^ n"
  by (rule bit_word_eqI) (auto simp: bit_simps)

lemma byte_of_bits:
  fixes b :: u8
  shows "0 OR (if bit b 0 then 1 else 0) OR (if bit b 1 then 2 else 0) OR
    (if bit b 2 then 4 else 0) OR (if bit b 3 then 8 else 0) OR (if bit b 4 then 16 else 0) OR
    (if bit b 5 then 32 else 0) OR (if bit b 6 then 64 else 0) OR (if bit b 7 then 128 else 0) = b"
proof -
  have "(if bit b 0 then 1 else 0) = b AND 1" "(if bit b 1 then 2 else 0) = b AND 2"
    "(if bit b 2 then 4 else 0) = b AND 4" "(if bit b 3 then 8 else 0) = b AND 8"
    "(if bit b 4 then 16 else 0) = b AND 16" "(if bit b 5 then 32 else 0) = b AND 32"
    "(if bit b 6 then 64 else 0) = b AND 64" "(if bit b 7 then 128 else 0) = b AND 128"
    using and_bit_mask [of b 0] and_bit_mask [of b 1] and_bit_mask [of b 2]
      and_bit_mask [of b 3] and_bit_mask [of b 4] and_bit_mask [of b 5]
      and_bit_mask [of b 6] and_bit_mask [of b 7]
    by (simp_all cong: if_cong)
  then have "0 OR (if bit b 0 then 1 else 0) OR (if bit b 1 then 2 else 0) OR
    (if bit b 2 then 4 else 0) OR (if bit b 3 then 8 else 0) OR (if bit b 4 then 16 else 0) OR
    (if bit b 5 then 32 else 0) OR (if bit b 6 then 64 else 0) OR (if bit b 7 then 128 else 0)
    = b AND (1 OR 2 OR 4 OR 8 OR 16 OR 32 OR 64 OR 128)"
    by (simp only: bit.conj_disj_distrib or.left_neutral)
  also have "(1 OR 2 OR 4 OR 8 OR 16 OR 32 OR 64 OR 128 :: u8) = - 1"
    by simp
  finally show ?thesis
    by simp
qed


lemma line_in_emit [simp]: "line_in (emit e s) = line_in s"
  by (simp add: emit_def)

lemma SREG_emit [simp]: "SREG (emit e s) = SREG s"
  by (simp add: emit_def)

lemma fst_sample: "fst (sample s) = (case line_in s of [] \<Rightarrow> LOW | x # xs \<Rightarrow> x)"
  by (simp add: sample_def split: list.splits)

lemma line_in_sample: "line_in (snd (sample s)) = tl (line_in s)"
  by (simp add: sample_def split: list.splits)

lemma fst_portRead: "fst (portRead s) = (case line_in s of [] \<Rightarrow> LOW | x # xs \<Rightarrow> x)"
  by (simp add: portRead_def case_prod_beta fst_sample)

lemma line_in_portRead: "line_in (snd (portRead s)) = tl (line_in s)"
  by (simp add: portRead_def case_prod_beta line_in_sample)

lemma fst_digitalRead: "fst (digitalRead p s) = (case line_in s of [] \<Rightarrow> LOW | x # xs \<Rightarrow> x)"
  by (simp add: digitalRead_def case_prod_beta fst_sample)

lemma line_in_digitalRead: "line_in (snd (digitalRead p s)) = tl (line_in s)"
  by (simp add: digitalRead_def case_prod_beta line_in_sample)

lemma line_in_DELAY [simp]: "line_in (DELAY_US_COMPENSATED us c s) = line_in s"
  by (simp add: DELAY_US_COMPENSATED_def)

lemma waitStart_high:
  assumes "line_in s = HIGH # xs"
  shows "waitStart tc s = (True, snd (portRead s))"
  using assms by (subst waitStart.simps) (simp add: case_prod_beta fst_portRead)

lemma readBits_line:
  "length ms \<le> length (line_in s) \<Longrightarrow>
   fst (foldl readBit (val, s) ms) =
     foldl (\<lambda>val (d, m). if \<not> d then val OR m else val) val (zip (line_in s) ms) \<and>
   line_in (snd (foldl readBit (val, s) ms)) = drop (length ms) (line_in s)"
proof (induction ms arbitrary: val s)
  case Nil
  show ?case by simp
next
  case (Cons m ms)
  then obtain x xs where xs: "line_in s = x # xs"
    by (cases "line_in s") auto
  have step: "readBit (val, s) m =
      ((if \<not> x then val OR m else val), DELAY_US_COMPENSATED 868 19 (snd (portRead s)))"
    by (simp add: readBit_def case_prod_beta fst_portRead xs)
  have "line_in (DELAY_US_COMPENSATED 868 19 (snd (portRead s))) = xs"
    by (simp add: line_in_portRead xs)
  moreover from Cons.prems xs have "length ms \<le> length xs"
    by simp
  ultimately show ?case
    using Cons.IH [of "DELAY_US_COMPENSATED 868 19 (snd (portRead s))" "if \<not> x then val OR m else val"]
    by (simp add: step xs)
qed

lemma readByte_framed:
  assumes "line_in s = f @ rest" "framed f"
  shows "fst (readByte tc s) = decode_frame f \<and> line_in (snd (readByte tc s)) = rest"
proof -
  from assms(2) obtain xs where f: "f = HIGH # xs" and len: "length xs = 9"
    by (cases f) (auto simp: framed_def)
  let ?s1 = "DELAY_US_COMPENSATED 1302 32 (snd (portRead s))"
  have w: "waitStart tc s = (True, snd (portRead s))"
    using assms(1) f by (simp add: waitStart_high)
  have l0: "line_in (snd (portRead s)) = xs @ rest"
    using assms(1) f by (simp add: line_in_portRead)
  then have l1: "line_in ?s1 = xs @ rest"
    by simp
  have len8: "length bit_masks = 8"
    by (simp add: bit_masks_def)
  have "zip xs bit_masks = take 8 (zip xs bit_masks)"
    using len len8 by simp
  also have "\<dots> = zip (take 8 xs) bit_masks"
    using len8 by (simp add: take_zip)
  finally have z: "zip (xs @ rest) bit_masks = zip (take 8 xs) bit_masks"
    using len len8 by (simp add: zip_append1)
  have "length bit_masks \<le> length (line_in ?s1)"
    using len len8 by (simp add: l0)
  note rb = readBits_line [OF this, of 0]
  have v: "fst (foldl readBit (0, ?s1) bit_masks) = data_byte (take 8 xs)"
    using rb by (simp add: l0 data_byte_def z)
  have "drop 8 xs = [xs ! 8]"
    using len Cons_nth_drop_Suc [of 8 xs] by simp
  then have d: "drop 8 (xs @ rest) = xs ! 8 # rest"
    using len by simp
  from rb have "line_in (snd (foldl readBit (0, ?s1) bit_masks)) =
      drop (length bit_masks) (line_in ?s1)"
    by (rule conjunct2)
  also have "\<dots> = drop 8 (xs @ rest)"
    by (simp only: len8 l1)
  also note d
  finally have l2: "line_in (snd (foldl readBit (0, ?s1) bit_masks)) = xs ! 8 # rest" .
  have stop: "fst (portRead (snd (foldl readBit (0, ?s1) bit_masks))) = xs ! 8"
    by (simp add: fst_portRead l2)
  have l3: "line_in (snd (portRead (snd (foldl readBit (0, ?s1) bit_masks)))) = rest"
    by (simp add: line_in_portRead l2)
  show ?thesis
    using stop l3 v
    by (simp add: readByte_def w Let_def case_prod_beta decode_frame_def f)
qed


lemma framed_frame_levels [simp]: "framed (frame_levels b)"
  by (simp add: framed_def frame_levels_def)

lemma framed_faulty_frame [simp]: "framed (faulty_frame b)"
  by (simp add: framed_def faulty_frame_def frame_levels_def)

lemma if_or_mask: "(if c then val OR m else val) = val OR (if c then m else (0 :: u8))"
  by simp

lemma data_byte_frame_levels: "data_byte (take 8 (drop 1 (frame_levels b))) = b"
  using byte_of_bits [of b]
  by (simp add: frame_levels_def data_byte_def bit_masks_def if_or_mask or.assoc
      split del: if_split)

lemma decode_frame_levels [simp]: "decode_frame (frame_levels b) = uint b"
  using data_byte_frame_levels [of b]
  by (simp add: decode_frame_def) (simp add: frame_levels_def)

lemma decode_faulty_frame [simp]: "decode_frame (faulty_frame b) = HITECD_ERR_CORRUPT"
  by (simp add: decode_frame_def faulty_frame_def frame_levels_def)

lemma line_in_cli [simp]: "line_in (cli s) = line_in s"
  by (simp add: cli_def)

lemma line_in_writeByte [simp]: "line_in (writeByte b s) = line_in s"
  by (simp add: writeByte_eq)

lemma line_in_readReg_request [simp]: "line_in (readReg_request reg s) = line_in s"
  by (simp add: readReg_request_def Let_def pinMode_def delay_def write_SREG_def
      digitalWrite_def)

lemma readReg_response_framed:
  assumes line: "line_in s = f1 @ f2 @ f3 @ f4 @ f5 @ f6 @ f7 @ rest"
    and fr: "framed f1" "framed f2" "framed f3" "framed f4" "framed f5" "framed f6" "framed f7"
  shows "fst (readReg_response tc s) =
      (decode_frame f1, decode_frame f2, decode_frame f3, decode_frame f4, decode_frame f5,
       decode_frame f6, decode_frame f7) \<and>
    line_in (snd (readReg_response tc s)) = rest"
proof -
  let ?s0 = "cli s"
  let ?s1 = "snd (readByte tc ?s0)"
  let ?s2 = "snd (readByte tc ?s1)"
  let ?s3 = "snd (readByte tc ?s2)"
  let ?s4 = "snd (readByte tc ?s3)"
  let ?s5 = "snd (readByte tc ?s4)"
  let ?s6 = "snd (readByte tc ?s5)"
  let ?s7 = "snd (readByte tc ?s6)"
  have "line_in ?s0 = f1 @ f2 @ f3 @ f4 @ f5 @ f6 @ f7 @ rest"
    using line by simp
  from readByte_framed [OF this fr(1), of tc]
  have r1: "fst (readByte tc ?s0) = decode_frame f1"
    and l1: "line_in ?s1 = f2 @ f3 @ f4 @ f5 @ f6 @ f7 @ rest"
    by blast+
  from readByte_framed [OF l1 fr(2), of tc]
  have r2: "fst (readByte tc ?s1) = decode_frame f2"
    and l2: "line_in ?s2 = f3 @ f4 @ f5 @ f6 @ f7 @ rest"
    by blast+
  from readByte_framed [OF l2 fr(3), of tc]
  have r3: "fst (readByte tc ?s2) = decode_frame f3"
    and l3: "line_in ?s3 = f4 @ f5 @ f6 @ f7 @ rest"
    by blast+
  from readByte_framed [OF l3 fr(4), of tc]
  have r4: "fst (readByte tc ?s3) = decode_frame f4"
    and l4: "line_in ?s4 = f5 @ f6 @ f7 @ rest"
    by blast+
  from readByte_framed [OF l4 fr(5), of tc]
  have r5: "fst (readByte tc ?s4) = decode_frame f5"
    and l5: "line_in ?s5 = f6 @ f7 @ rest"
    by blast+
  from readByte_framed [OF l5 fr(6), of tc]
  have r6: "fst (readByte tc ?s5) = decode_frame f6"
    and l6: "line_in ?s6 = f7 @ rest"
    by blast+
  from readByte_framed [OF l6 fr(7), of tc]
  have r7: "fst (readByte tc ?s6) = decode_frame f7"
    and l7: "line_in ?s7 = rest"
    by blast+
  show ?thesis
    by (simp add: readReg_response_def Let_def case_prod_beta r1 r2 r3 r4 r5 r6 r7 l7
        write_SREG_def delay_def)
qed

lemma answered_read:
  assumes line: "line_in s = l1 # f1 @ f2 @ f3 @ f4 @ f5 @ f6 @ f7 @ l2 # rest"
    and fr: "framed f1" "framed f2" "framed f3" "framed f4" "framed f5" "framed f6" "framed f7"
  shows "fst (first_check reg s) = l1"
    and "fst (received tc reg s) =
      (decode_frame f1, decode_frame f2, decode_frame f3, decode_frame f4, decode_frame f5,
       decode_frame f6, decode_frame f7)"
    and "fst (second_check tc reg s) = l2"
proof -
  show "fst (first_check reg s) = l1"
    by (simp add: first_check_def Let_def fst_digitalRead line)
  have "line_in (snd (first_check reg s)) = f1 @ f2 @ f3 @ f4 @ f5 @ f6 @ f7 @ l2 # rest"
    by (simp add: first_check_def Let_def line_in_digitalRead line)
  from readReg_response_framed [OF this fr, of tc]
  have r: "fst (received tc reg s) =
      (decode_frame f1, decode_frame f2, decode_frame f3, decode_frame f4, decode_frame f5,
       decode_frame f6, decode_frame f7)"
    and l: "line_in (snd (received tc reg s)) = l2 # rest"
    by (simp_all add: received_def)
  show "fst (received tc reg s) =
      (decode_frame f1, decode_frame f2, decode_frame f3, decode_frame f4, decode_frame f5,
       decode_frame f6, decode_frame f7)"
    by (rule r)
  show "fst (second_check tc reg s) = l2"
    by (simp add: second_check_def Let_def fst_digitalRead l)
qed

section \<open>The claims on register reads\<close>

lemma bench_answer:
  assumes "framed f1" "framed f2" "framed f3" "framed f4" "framed f5" "framed f6" "framed f7"
  shows "fst (first_check reg (bench_reading (l1 # f1 @ f2 @ f3 @ f4 @ f5 @ f6 @ f7 @ [l2]))) = l1"
    and "fst (received tc reg (bench_reading (l1 # f1 @ f2 @ f3 @ f4 @ f5 @ f6 @ f7 @ [l2]))) =
      (decode_frame f1, decode_frame f2, decode_frame f3, decode_frame f4, decode_frame f5,
       decode_frame f6, decode_frame f7)"
    and "fst (second_check tc reg (bench_reading (l1 # f1 @ f2 @ f3 @ f4 @ f5 @ f6 @ f7 @ [l2]))) = l2"
proof -
  have "line_in (bench_reading (l1 # f1 @ f2 @ f3 @ f4 @ f5 @ f6 @ f7 @ [l2])) =
      l1 # f1 @ f2 @ f3 @ f4 @ f5 @ f6 @ f7 @ l2 # []"
    by (simp add: bench_reading_def)
  note answered_read [OF this assms]
  then show "fst (first_check reg (bench_reading (l1 # f1 @ f2 @ f3 @ f4 @ f5 @ f6 @ f7 @ [l2]))) = l1"
    and "fst (received tc reg (bench_reading (l1 # f1 @ f2 @ f3 @ f4 @ f5 @ f6 @ f7 @ [l2]))) =
      (decode_frame f1, decode_frame f2, decode_frame f3, decode_frame f4, decode_frame f5,
       decode_frame f6, decode_frame f7)"
    and "fst (second_check tc reg (bench_reading (l1 # f1 @ f2 @ f3 @ f4 @ f5 @ f6 @ f7 @ [l2]))) = l2"
    by blast+
qed

lemma received_range: "rx_values (fst (received tc reg s))"
  by (simp add: received_def readReg_response_range)

text \<open>
  C1, amended. In a register read in which both checks of the line pass, \<open>readReg\<close>
  returns \<open>HITECD_ERR_CORRUPT\<close> (and leaves \<open>*val_out\<close> as it was) if and only if the
  echo byte differs from 0x69, the echoed register differs from the requested one, the
  constant byte differs from 0x02, the received checksum differs from
  \<open>(mystery + regEcho + 0x02 + valLo + valHi) mod 256\<close>, or one of the seven bytes was
  not received, because it timed out or because its stop bit was not at the idle level;
  otherwise it returns \<open>HITECD_OK\<close> and the value \<open>valLo | (valHi << 8)\<close>.
\<close>

theorem readReg_corrupt_iff:
  assumes "fst (first_check reg s) = LOW" and "fst (second_check tc reg s) = HIGH"
    and "fst (received tc reg s) = (echo, mystery, regEcho, c, valLo, valHi, checksum)"
  shows "fst (readReg tc reg v s) =
     (if listed_violation reg (echo, mystery, regEcho, c, valLo, valHi, checksum) \<or>
         any_framing_fault (echo, mystery, regEcho, c, valLo, valHi, checksum)
      then (HITECD_ERR_CORRUPT, v)
      else (HITECD_OK, word_of_int valLo OR push_bit 8 (word_of_int valHi)))"
proof -
  have "rx_values (echo, mystery, regEcho, c, valLo, valHi, checksum)"
    using received_range [of tc reg s] assms(3) by simp
  from readReg_validate_eq [OF this, of reg v] show ?thesis
    by (simp only: readReg_validated [OF assms(1,2)] assms(3) fst_conv)
qed

theorem readReg_corrupt_iff_witness:
  "fst (first_check 0x00 model_number_run) = LOW \<and>
   fst (second_check 4266 0x00 model_number_run) = HIGH \<and>
   fst (received 4266 0x00 model_number_run) = (0x69, 0x00, 0x00, 0x02, 0xE5, 0x01, 0xE8) \<and>
   fst (readReg 4266 0x00 0 model_number_run) = (HITECD_OK, 485)"
proof -
  have h: "fst (first_check 0x00 model_number_run) = LOW"
    "fst (second_check 4266 0x00 model_number_run) = HIGH"
    "fst (received 4266 0x00 model_number_run) = (0x69, 0x00, 0x00, 0x02, 0xE5, 0x01, 0xE8)"
    by (simp_all add: model_number_run_def answer_def bench_answer)
  from readReg_corrupt_iff [OF h, of 0] h show ?thesis
    by (simp add: listed_violation_def any_framing_fault_def timed_out_def framing_fault_def
        HITECD_defs)
qed

text \<open>
  C1 as stated fails, since it lists time-outs only: in this run both checks pass, the
  mystery byte has a framing fault, no byte times out, echo, register and constant are
  right and the checksum agrees with the sum whether the mystery byte is taken as what
  \<open>readByte\<close> returned (\<open>-3\<close>) or as its data levels (0xFD); \<open>readReg\<close> returns
  \<open>HITECD_ERR_CORRUPT\<close>.
\<close>

theorem readReg_corrupt_iff_counterexample:
  "fst (first_check 0x00 framing_fault_run) = LOW \<and>
   fst (second_check 4266 0x00 framing_fault_run) = HIGH \<and>
   fst (received 4266 0x00 framing_fault_run) = (0x69, - 3, 0x00, 0x02, 0x00, 0x01, 0x00) \<and>
   \<not> listed_violation 0x00 (0x69, - 3, 0x00, 0x02, 0x00, 0x01, 0x00) \<and>
   data_byte (take 8 (drop 1 (faulty_frame 0xFD))) = 0xFD \<and>
   \<not> listed_violation 0x00 (0x69, 0xFD, 0x00, 0x02, 0x00, 0x01, 0x00) \<and>
   fst (readReg 4266 0x00 0 framing_fault_run) = (HITECD_ERR_CORRUPT, 0)"
proof -
  have h: "fst (first_check 0x00 framing_fault_run) = LOW"
    "fst (second_check 4266 0x00 framing_fault_run) = HIGH"
    "fst (received 4266 0x00 framing_fault_run) = (0x69, - 3, 0x00, 0x02, 0x00, 0x01, 0x00)"
    by (simp_all add: framing_fault_run_def answer_def bench_answer HITECD_defs)
  have l: "\<not> listed_violation 0x00 (0x69, - 3, 0x00, 0x02, 0x00, 0x01, 0x00)"
    "\<not> listed_violation 0x00 (0x69, 0xFD, 0x00, 0x02, 0x00, 0x01, 0x00)"
    by (simp_all add: listed_violation_def timed_out_def HITECD_defs)
  have d: "data_byte (take 8 (drop 1 (faulty_frame 0xFD))) = 0xFD"
    using data_byte_frame_levels [of "0xFD"] by (simp add: faulty_frame_def frame_levels_def)
  have "fst (readReg 4266 0x00 0 framing_fault_run) = (HITECD_ERR_CORRUPT, 0)"
    by (simp add: readReg_validated [OF h(1,2)] h(3) readReg_validate_if HITECD_defs)
  with h l d show ?thesis
    by blast
qed

lemma pin_cli [simp]: "pin (cli s) = pin s"
  by (simp add: cli_def)

lemma pin_writeByte [simp]: "pin (writeByte b s) = pin s"
  by (simp add: writeByte_eq)

lemma pin_readReg_request [simp]: "pin (readReg_request reg s) = pin s"
  by (simp add: readReg_request_def Let_def pinMode_def delay_def write_SREG_def
      digitalWrite_def)

lemma pin_digitalRead [simp]: "pin (snd (digitalRead p s)) = pin s"
  by (simp add: digitalRead_def case_prod_beta sample_def split: list.splits)

lemma pin_first_check [simp]: "pin (snd (first_check reg s)) = pin s"
  by (simp add: first_check_def Let_def)

lemma line_in_pinMode [simp]: "line_in (pinMode p m s) = line_in s"
  by (simp add: pinMode_def)

lemma line_in_delay [simp]: "line_in (delay ms s) = line_in s"
  by (simp add: delay_def)

lemma line_in_first_check [simp]: "line_in (snd (first_check reg s)) = tl (line_in s)"
  by (simp add: first_check_def Let_def line_in_digitalRead)

text \<open>
  C3. In the handshake of a register read: if the line is not LOW once it has been
  released to the pulled-up input, \<open>readReg\<close> fails with \<open>HITECD_ERR_NO_SERVO\<close> and
  reads no response byte (after the check it only waits and takes the pin back; the
  check is the single read of the line); if the line was LOW, the response was received
  and the line is then not HIGH, it fails with \<open>HITECD_ERR_NO_RESISTOR\<close>. Both codes
  differ from \<open>HITECD_ERR_CORRUPT\<close> and from each other.
\<close>

theorem turnaround_failures:
  "(fst (first_check reg s) \<noteq> LOW \<longrightarrow>
      fst (readReg tc reg v s) = (HITECD_ERR_NO_SERVO, v) \<and>
      snd (readReg tc reg v s) = pinMode (pin s) OUTPUT (delay 2 (snd (first_check reg s))) \<and>
      line_in (snd (readReg tc reg v s)) = tl (line_in s)) \<and>
   (fst (first_check reg s) = LOW \<and> fst (second_check tc reg s) \<noteq> HIGH \<longrightarrow>
      fst (readReg tc reg v s) = (HITECD_ERR_NO_RESISTOR, v)) \<and>
   HITECD_ERR_NO_SERVO \<noteq> HITECD_ERR_CORRUPT \<and>
   HITECD_ERR_NO_RESISTOR \<noteq> HITECD_ERR_CORRUPT \<and>
   HITECD_ERR_NO_SERVO \<noteq> HITECD_ERR_NO_RESISTOR"
proof -
  have "fst (readReg tc reg v s) = (HITECD_ERR_NO_SERVO, v) \<and>
      snd (readReg tc reg v s) = pinMode (pin s) OUTPUT (delay 2 (snd (first_check reg s))) \<and>
      line_in (snd (readReg tc reg v s)) = tl (line_in s)"
    if "fst (first_check reg s) \<noteq> LOW"
    using readReg_no_servo [OF that, of tc v]
    by (simp add: line_in_first_check)
  moreover have "fst (readReg tc reg v s) = (HITECD_ERR_NO_RESISTOR, v)"
    if "fst (first_check reg s) = LOW" "fst (second_check tc reg s) \<noteq> HIGH"
    using readReg_no_resistor [OF that, of v] by simp
  ultimately show ?thesis
    by (simp add: HITECD_defs)
qed

theorem turnaround_failures_witness:
  "fst (first_check 0x00 no_servo_run) \<noteq> LOW \<and>
   fst (readReg 4266 0x00 0 no_servo_run) = (HITECD_ERR_NO_SERVO, 0) \<and>
   line_in (snd (readReg 4266 0x00 0 no_servo_run)) = [] \<and>
   fst (first_check 0x00 no_resistor_run) = LOW \<and>
   fst (second_check 4266 0x00 no_resistor_run) \<noteq> HIGH \<and>
   fst (readReg 4266 0x00 0 no_resistor_run) = (HITECD_ERR_NO_RESISTOR, 0)"
proof -
  have a: "fst (first_check 0x00 no_servo_run) \<noteq> LOW"
    by (simp add: no_servo_run_def bench_reading_def first_check_def Let_def fst_digitalRead)
  have l: "line_in no_servo_run = [HIGH]"
    by (simp add: no_servo_run_def bench_reading_def)
  have b: "fst (first_check 0x00 no_resistor_run) = LOW"
    "fst (second_check 4266 0x00 no_resistor_run) \<noteq> HIGH"
    by (simp_all add: no_resistor_run_def bench_answer)
  from turnaround_failures [of "0x00" no_servo_run 4266 0]
    turnaround_failures [of "0x00" no_resistor_run 4266 0] a b l
  show ?thesis
    by simp
qed

lemma checksum_detects:
  fixes a b :: u8
  assumes "a \<noteq> b"
  shows "(uint a + k) mod 256 \<noteq> (uint b + k) mod 256"
proof
  assume "(uint a + k) mod 256 = (uint b + k) mod 256"
  then have "256 dvd (uint a + k) - (uint b + k)"
    by (simp only: mod_eq_dvd_iff)
  then have d: "256 dvd uint a - uint b"
    by simp
  have bounds: "0 \<le> uint a" "uint a < 256" "0 \<le> uint b" "uint b < 256"
    by (simp_all add: uint_u8_bound)
  have "uint a - uint b = 0"
  proof (rule ccontr)
    assume "uint a - uint b \<noteq> 0"
    from dvd_imp_le_int [OF this d] have "256 \<le> \<bar>uint a - uint b\<bar>"
      by simp
    with bounds show False
      by linarith
  qed
  then have "a = b"
    by (simp add: word_uint_eq_iff)
  with assms show False
    by simp
qed

lemma validate_ok_iff:
  "(fst (readReg_validate reg (echo, mystery, regEcho, c, valLo, valHi, checksum) v) = HITECD_OK) =
     (echo = 0x69 \<and> 0 \<le> mystery \<and> regEcho = uint reg \<and> c = 0x02 \<and> 0 \<le> valLo \<and>
      0 \<le> valHi \<and> checksum = (mystery + regEcho + c + valLo + valHi) mod 256)"
  by (simp add: readReg_validate_if HITECD_defs)

lemma validate_single_corruption:
  fixes b0 b1 b2 b3 b4 b5 b6 c0 c1 c2 c3 c4 c5 c6 x :: u8
  assumes wf: "fst (readReg_validate reg
      (uint b0, uint b1, uint b2, uint b3, uint b4, uint b5, uint b6) v) = HITECD_OK"
    and i: "i < 7"
    and upd: "[c0, c1, c2, c3, c4, c5, c6] = [b0, b1, b2, b3, b4, b5, b6][i := x]"
    and x: "x \<noteq> [b0, b1, b2, b3, b4, b5, b6] ! i"
  shows "readReg_validate reg (uint c0, uint c1, uint c2, uint c3, uint c4, uint c5, uint c6) v =
    (HITECD_ERR_CORRUPT, v)"
proof -
  from wf have ok: "uint b0 = 0x69" "uint b2 = uint reg" "uint b3 = 0x02"
    "uint b6 = (uint b1 + uint b2 + uint b3 + uint b4 + uint b5) mod 256"
    by (simp_all add: validate_ok_iff)
  from i consider "i = 0" | "i = 1" | "i = 2" | "i = 3" | "i = 4" | "i = 5" | "i = 6"
    by linarith
  then show ?thesis
  proof cases
    case 1
    with upd x have "c0 \<noteq> b0" by simp
    with ok(1) have "uint c0 \<noteq> 0x69" by (metis word_uint_eq_iff)
    then show ?thesis by (simp add: readReg_validate_if)
  next
    case 2
    with upd x have e: "c0 = b0" "c2 = b2" "c3 = b3" "c4 = b4" "c5 = b5" "c6 = b6" "c1 \<noteq> b1"
      by simp_all
    from checksum_detects [OF e(7), of "uint b2 + uint b3 + uint b4 + uint b5"]
    have "uint b6 \<noteq> (uint c1 + uint b2 + uint b3 + uint b4 + uint b5) mod 256"
      by (simp add: ok(4) add.assoc)
    then show ?thesis by (simp add: readReg_validate_if e)
  next
    case 3
    with upd x have "c2 \<noteq> b2" by simp
    with ok(2) have "uint c2 \<noteq> uint reg" by (metis word_uint_eq_iff)
    then show ?thesis by (simp add: readReg_validate_if)
  next
    case 4
    with upd x have "c3 \<noteq> b3" by simp
    with ok(3) have "uint c3 \<noteq> 0x02" by (metis word_uint_eq_iff)
    then show ?thesis by (simp add: readReg_validate_if)
  next
    case 5
    with upd x have e: "c0 = b0" "c1 = b1" "c2 = b2" "c3 = b3" "c5 = b5" "c6 = b6" "c4 \<noteq> b4"
      by simp_all
    from checksum_detects [OF e(7), of "uint b1 + uint b2 + uint b3 + uint b5"]
    have "uint b6 \<noteq> (uint b1 + uint b2 + uint b3 + uint c4 + uint b5) mod 256"
      by (simp add: ok(4) add.assoc add.left_commute)
    then show ?thesis by (simp add: readReg_validate_if e)
  next
    case 6
    with upd x have e: "c0 = b0" "c1 = b1" "c2 = b2" "c3 = b3" "c4 = b4" "c6 = b6" "c5 \<noteq> b5"
      by simp_all
    from checksum_detects [OF e(7), of "uint b1 + uint b2 + uint b3 + uint b4"]
    have "uint b6 \<noteq> (uint b1 + uint b2 + uint b3 + uint b4 + uint c5) mod 256"
      by (simp add: ok(4) add.commute)
    then show ?thesis by (simp add: readReg_validate_if e)
  next
    case 7
    with upd x have e: "c0 = b0" "c1 = b1" "c2 = b2" "c3 = b3" "c4 = b4" "c5 = b5" "c6 \<noteq> b6"
      by simp_all
    from e(7) ok(4) have "uint c6 \<noteq> (uint b1 + uint b2 + uint b3 + uint b4 + uint b5) mod 256"
      by (metis word_uint_eq_iff)
    then show ?thesis by (simp add: readReg_validate_if e)
  qed
qed

text \<open>
  C4. Let seven bytes be a response that passes the whole validation of a read of
  \<open>reg\<close>. If the bytes received in a read (both checks of the line passing) are these
  with exactly one of them replaced by a different byte, \<open>readReg\<close> returns
  \<open>HITECD_ERR_CORRUPT\<close>, never success.
\<close>

theorem single_byte_corruption_detected:
  fixes b0 b1 b2 b3 b4 b5 b6 c0 c1 c2 c3 c4 c5 c6 x :: u8
  assumes "fst (first_check reg s) = LOW" and "fst (second_check tc reg s) = HIGH"
    and "fst (readReg_validate reg
      (uint b0, uint b1, uint b2, uint b3, uint b4, uint b5, uint b6) v) = HITECD_OK"
    and "i < 7"
    and "[c0, c1, c2, c3, c4, c5, c6] = [b0, b1, b2, b3, b4, b5, b6][i := x]"
    and "x \<noteq> [b0, b1, b2, b3, b4, b5, b6] ! i"
    and "fst (received tc reg s) = (uint c0, uint c1, uint c2, uint c3, uint c4, uint c5, uint c6)"
  shows "fst (readReg tc reg v s) = (HITECD_ERR_CORRUPT, v)"
  using validate_single_corruption [OF assms(3-6)]
  by (simp only: readReg_validated [OF assms(1,2)] assms(7) fst_conv)

theorem single_byte_corruption_detected_witness:
  "fst (first_check 0x00 corrupted_run) = LOW \<and>
   fst (second_check 4266 0x00 corrupted_run) = HIGH \<and>
   fst (readReg_validate 0x00 (0x69, 0x00, 0x00, 0x02, 0xE5, 0x01, 0xE8) 0) = HITECD_OK \<and>
   [0x69, 0x00, 0x00, 0x02, 0xE4, 0x01, 0xE8] =
     [0x69, 0x00, 0x00, 0x02, 0xE5, 0x01, 0xE8 :: u8][4 := 0xE4] \<and>
   fst (received 4266 0x00 corrupted_run) = (0x69, 0x00, 0x00, 0x02, 0xE4, 0x01, 0xE8) \<and>
   fst (readReg 4266 0x00 0 corrupted_run) = (HITECD_ERR_CORRUPT, 0)"
proof -
  have h: "fst (first_check 0x00 corrupted_run) = LOW"
    "fst (second_check 4266 0x00 corrupted_run) = HIGH"
    "fst (received 4266 0x00 corrupted_run) = (0x69, 0x00, 0x00, 0x02, 0xE4, 0x01, 0xE8)"
    by (simp_all add: corrupted_run_def answer_def bench_answer)
  have wf: "fst (readReg_validate 0x00 (0x69, 0x00, 0x00, 0x02, 0xE5, 0x01, 0xE8) 0) = HITECD_OK"
    by (simp add: validate_ok_iff)
  from single_byte_corruption_detected [of "0x00" corrupted_run 4266
      "0x69" "0x00" "0x00" "0x02" "0xE5" "0x01" "0xE8" 0 4
      "0x69" "0x00" "0x00" "0x02" "0xE4" "0x01" "0xE8" "0xE4"] h wf
  show ?thesis
    by simp
qed

section \<open>Critical sections\<close>

lemma emits_refl: "emits P s s"
  by (simp add: emits_def)

lemma emits_trans: "emits P s s' \<Longrightarrow> emits P s' s'' \<Longrightarrow> emits P s s''"
  by (auto simp: emits_def)

lemma emits_emit: "P (SREG s, e) \<Longrightarrow> emits P s (emit e s)"
  by (simp add: emits_def emit_def)

lemma emits_new_events: "emits P s s' \<Longrightarrow> list_all P (new_events s s')"
  by (auto simp: emits_def new_events_def)

lemma emits_prefix:
  "hw_trace s' = hw_trace s @ a @ b \<Longrightarrow> emits P s' s'' \<Longrightarrow>
   take (length a) (new_events s s'') = a"
  by (auto simp: emits_def new_events_def)

lemma emits_member:
  "emits Q s s' \<Longrightarrow> x \<in> set (new_events s s') \<Longrightarrow> emits P s' s'' \<Longrightarrow>
   x \<in> set (new_events s s'')"
  by (auto simp: emits_def new_events_def)

lemma steady_refl: "steady s s"
  by (simp add: steady_def emits_refl)

lemma steady_trans: "steady s s' \<Longrightarrow> steady s' s'' \<Longrightarrow> steady s s''"
  by (auto simp: steady_def intro: emits_trans)

lemma steady_emit: "timing_critical e \<Longrightarrow> steady s (emit e s)"
  by (simp add: steady_def emits_emit)

lemma steady_window:
  "steady s s' \<Longrightarrow> suppressed (SREG s) \<Longrightarrow> emits (window_ok sreg0) s s'"
proof -
  assume "steady s s'" and sup: "suppressed (SREG s)"
  then obtain ev where ev: "hw_trace s' = hw_trace s @ ev"
    "list_all (\<lambda>x. fst x = SREG s \<and> timing_critical (snd x)) ev"
    by (auto simp: steady_def emits_def)
  have "window_ok sreg0 x" if "fst x = SREG s \<and> timing_critical (snd x)" for x
    using that sup by (cases "snd x") (simp_all add: window_ok_def)
  with ev(2) have "list_all (window_ok sreg0) ev"
    by (simp add: list_all_iff)
  with ev(1) show ?thesis
    by (auto simp: emits_def)
qed

lemma suppressed_cli: "suppressed (SREG (cli s))"
  by (simp add: suppressed_def cli_def bit_simps)

lemma steady_writeByte: "steady s (writeByte b s)"
  by (simp add: steady_def emits_def writeByte_eq writeByte_events_def bit_masks_def
      writeBit_event_def)

lemma steady_portRead: "steady s (snd (portRead s))"
  by (simp add: portRead_def case_prod_beta steady_def emits_def emit_def sample_def
      split: list.splits)

lemma steady_DELAY: "steady s (DELAY_US_COMPENSATED us c s)"
  by (simp add: DELAY_US_COMPENSATED_def steady_emit)

lemma steady_waitStart: "steady s (snd (waitStart tc s))"
proof (induction tc s rule: waitStart.induct)
  case (1 timeout_counter s)
  show ?case
  proof (cases "fst (portRead s) \<or> timeout_counter - 1 = 0")
    case True
    then show ?thesis
      by (subst waitStart.simps) (auto simp: case_prod_beta steady_portRead)
  next
    case False
    then have "(LOW, snd (portRead s)) = portRead s"
      by (cases "portRead s") auto
    with False
    have "steady (snd (portRead s)) (snd (waitStart (timeout_counter - 1) (snd (portRead s))))"
      using "1.IH" [of LOW "snd (portRead s)"] by simp
    with steady_portRead [of s]
    have "steady s (snd (waitStart (timeout_counter - 1) (snd (portRead s))))"
      by (rule steady_trans)
    with False show ?thesis
      by (subst waitStart.simps) (simp add: case_prod_beta)
  qed
qed

lemma steady_readBit: "steady s (snd (readBit (val, s) m))"
  using steady_trans [OF steady_portRead steady_DELAY]
  by (simp add: readBit_def case_prod_beta)

lemma steady_readBits: "steady s (snd (foldl readBit (val, s) ms))"
proof (induction ms arbitrary: val s)
  case Nil
  show ?case by (simp add: steady_refl)
next
  case (Cons m ms)
  obtain val' s' where step: "readBit (val, s) m = (val', s')"
    by (cases "readBit (val, s) m")
  with steady_readBit [of s val m] have "steady s s'"
    by simp
  from steady_trans [OF this Cons.IH [of s' val']] step show ?case
    by simp
qed

lemma steady_readByte: "steady s (snd (readByte tc s))"
proof (cases "fst (waitStart tc s)")
  case False
  then show ?thesis
    using steady_waitStart [of s tc]
    by (simp add: readByte_def case_prod_beta split: bool.splits)
next
  case True
  let ?s1 = "snd (waitStart tc s)"
  let ?s2 = "DELAY_US_COMPENSATED 1302 32 ?s1"
  let ?s3 = "snd (foldl readBit (0, ?s2) bit_masks)"
  have "steady s ?s3"
    by (rule steady_trans [OF steady_trans [OF steady_waitStart steady_DELAY] steady_readBits])
  then have "steady s (snd (portRead ?s3))"
    by (rule steady_trans [OF _ steady_portRead])
  with True show ?thesis
    by (simp add: readByte_def case_prod_beta Let_def split: bool.splits)
qed


lemma outside_trans: "outside c s s' \<Longrightarrow> outside c s' s'' \<Longrightarrow> outside c s s''"
  by (auto simp: outside_def intro: emits_trans)

lemma outside_emit:
  "SREG s = c \<Longrightarrow> \<not> timing_critical e \<Longrightarrow> outside c s (emit e s)"
  by (simp add: outside_def emits_emit window_ok_def)

lemma emits_cli: "emits (window_ok c) s (cli s)"
  by (simp add: emits_def cli_def emit_def window_ok_def)

lemma outside_critical:
  assumes "SREG s = c" and "emits (window_ok c) (cli s) s'"
  shows "outside c s (write_SREG c s')"
proof -
  have "emits (window_ok c) s' (write_SREG c s')"
    by (simp add: emits_def write_SREG_def emit_def window_ok_def)
  with emits_trans [OF emits_cli assms(2)] have "emits (window_ok c) s (write_SREG c s')"
    by (rule emits_trans)
  with assms(1) show ?thesis
    by (simp add: outside_def write_SREG_def)
qed

lemma steady_writeBytes: "steady s (foldl (\<lambda>s b. writeByte b s) s bs)"
proof (induction bs arbitrary: s)
  case Nil
  show ?case by (simp add: steady_refl)
next
  case (Cons b bs)
  from steady_trans [OF steady_writeByte Cons.IH] show ?case
    by simp
qed

lemma first_events:
  "hw_trace (writeByte b (cli s)) =
     hw_trace s @ [(SREG s, Cli), (SREG s AND NOT 0x80, PortSet (pinOutputRegister s) (pinBitMask s))] @
       tl (writeByte_events (cli s) b)"
  by (simp add: writeByte_eq writeByte_events_def cli_def emit_def)

lemma writeReg_window:
  "outside (SREG s) s (writeReg reg val s)"
  "take 2 (new_events s (writeReg reg val s)) =
     [(SREG s, Cli), (SREG s AND NOT 0x80, PortSet (pinOutputRegister s) (pinBitMask s))]"
proof -
  let ?body = "foldl (\<lambda>s b. writeByte b s) (cli s) (write_request reg val)"
  have w: "writeReg reg val s = write_SREG (SREG s) ?body"
    by (rule writeReg_as_fold)
  have "emits (window_ok (SREG s)) (cli s) ?body"
    by (rule steady_window [OF steady_writeBytes suppressed_cli])
  from outside_critical [OF refl this] show o: "outside (SREG s) s (writeReg reg val s)"
    by (simp only: w)
  let ?s1 = "writeByte 0x96 (cli s)"
  have b: "?body = foldl (\<lambda>s b. writeByte b s) ?s1 (tl (write_request reg val))"
    by (simp add: write_request_def Let_def)
  have "steady ?s1 ?body"
    unfolding b by (rule steady_writeBytes)
  then have "emits (\<lambda>x. True) ?s1 ?body"
    by (auto simp: steady_def emits_def list_all_iff)
  moreover have "emits (\<lambda>x. True) ?body (writeReg reg val s)"
    by (simp add: w emits_def write_SREG_def emit_def)
  ultimately have "emits (\<lambda>x. True) ?s1 (writeReg reg val s)"
    by (rule emits_trans)
  from emits_prefix [OF first_events this]
  show "take 2 (new_events s (writeReg reg val s)) =
     [(SREG s, Cli), (SREG s AND NOT 0x80, PortSet (pinOutputRegister s) (pinBitMask s))]"
    by (simp add: numeral_2_eq_2)
qed


lemma reg_checksum: "(word_of_int (uint (reg :: u8) AND 0xFF) :: u8) = reg"
proof -
  have "uint reg mod 256 = uint reg"
    using uint_u8_bound [of reg] by simp
  then show ?thesis
    by (simp add: int_and_ff)
qed

lemma readReg_request_eq:
  "readReg_request reg s =
     pinMode (pin s) INPUT_PULLUP (delay 14 (write_SREG (SREG s)
       (digitalWrite (pin s) LOW
          (foldl (\<lambda>s b. writeByte b s) (cli s) [0x96, 0x00, reg, 0x00, reg]))))"
  by (simp add: readReg_request_def Let_def reg_checksum write_SREG_def delay_def
      digitalWrite_def)

lemma readReg_request_window:
  "outside (SREG s) s (readReg_request reg s)"
  "take 2 (new_events s (readReg_request reg s)) =
     [(SREG s, Cli), (SREG s AND NOT 0x80, PortSet (pinOutputRegister s) (pinBitMask s))]"
  "(SREG s, Delay 14) \<in> set (new_events s (readReg_request reg s))"
proof -
  let ?body = "foldl (\<lambda>s b. writeByte b s) (cli s) [0x96, 0x00, reg, 0x00, reg]"
  let ?s2 = "digitalWrite (pin s) LOW ?body"
  let ?s3 = "write_SREG (SREG s) ?s2"
  let ?s4 = "delay 14 ?s3"
  have r: "readReg_request reg s = pinMode (pin s) INPUT_PULLUP ?s4"
    by (rule readReg_request_eq)
  have "emits (window_ok (SREG s)) (cli s) ?body"
    by (rule steady_window [OF steady_writeBytes suppressed_cli])
  moreover have "emits (window_ok (SREG s)) ?body ?s2"
    by (simp add: digitalWrite_def emits_emit window_ok_def)
  ultimately have "emits (window_ok (SREG s)) (cli s) ?s2"
    by (rule emits_trans)
  from outside_critical [OF refl this] have o3: "outside (SREG s) s ?s3" .
  then have sr3: "SREG ?s3 = SREG s"
    by (simp add: outside_def)
  from outside_emit [OF sr3, of "Delay 14"] have o4: "outside (SREG s) ?s3 ?s4"
    by (simp add: delay_def)
  then have sr4: "SREG ?s4 = SREG s"
    by (simp add: outside_def)
  from outside_emit [OF sr4, of "PinMode (pin s) INPUT_PULLUP"]
  have o5: "outside (SREG s) ?s4 (readReg_request reg s)"
    by (simp add: r pinMode_def)
  from outside_trans [OF outside_trans [OF o3 o4] o5]
  show "outside (SREG s) s (readReg_request reg s)" .
  let ?s1 = "writeByte 0x96 (cli s)"
  have "steady ?s1 ?body"
    using steady_writeBytes [of ?s1 "[0x00, reg, 0x00, reg]"] by simp
  then have "emits (\<lambda>x. True) ?s1 ?body"
    by (auto simp: steady_def emits_def list_all_iff)
  moreover have "emits (\<lambda>x. True) ?body (readReg_request reg s)"
    by (simp add: r emits_def write_SREG_def emit_def pinMode_def delay_def digitalWrite_def)
  ultimately have "emits (\<lambda>x. True) ?s1 (readReg_request reg s)"
    by (rule emits_trans)
  from emits_prefix [OF first_events this]
  show "take 2 (new_events s (readReg_request reg s)) =
     [(SREG s, Cli), (SREG s AND NOT 0x80, PortSet (pinOutputRegister s) (pinBitMask s))]"
    by (simp add: numeral_2_eq_2)
  from o3 obtain ev where ev: "hw_trace ?s3 = hw_trace s @ ev"
    by (auto simp: outside_def emits_def)
  then have "hw_trace (readReg_request reg s) =
      hw_trace s @ ev @ [(SREG s, Delay 14), (SREG s, PinMode (pin s) INPUT_PULLUP)]"
    using sr3 by (simp add: r pinMode_def delay_def emit_def)
  then show "(SREG s, Delay 14) \<in> set (new_events s (readReg_request reg s))"
    by (simp add: new_events_def)
qed

lemma outside_digitalRead: "outside (SREG s) s (snd (digitalRead p s))"
proof -
  have "SREG (snd (sample s)) = SREG s" "hw_trace (snd (sample s)) = hw_trace s"
    by (simp_all add: sample_def split: list.splits)
  then show ?thesis
    by (simp add: digitalRead_def case_prod_beta outside_def emits_def emit_def window_ok_def)
qed

lemma readReg_response_window: "outside (SREG s) s (snd (readReg_response tc s))"
proof -
  let ?s0 = "cli s"
  let ?s1 = "snd (readByte tc ?s0)"
  let ?s2 = "snd (readByte tc ?s1)"
  let ?s3 = "snd (readByte tc ?s2)"
  let ?s4 = "snd (readByte tc ?s3)"
  let ?s5 = "snd (readByte tc ?s4)"
  let ?s6 = "snd (readByte tc ?s5)"
  let ?s7 = "snd (readByte tc ?s6)"
  have "steady ?s0 ?s2"
    by (rule steady_trans [OF steady_readByte steady_readByte])
  then have "steady ?s0 ?s3"
    by (rule steady_trans [OF _ steady_readByte])
  then have "steady ?s0 ?s4"
    by (rule steady_trans [OF _ steady_readByte])
  then have "steady ?s0 ?s5"
    by (rule steady_trans [OF _ steady_readByte])
  then have "steady ?s0 ?s6"
    by (rule steady_trans [OF _ steady_readByte])
  then have "steady ?s0 ?s7"
    by (rule steady_trans [OF _ steady_readByte])
  then have "emits (window_ok (SREG s)) ?s0 ?s7"
    by (rule steady_window [OF _ suppressed_cli])
  from outside_critical [OF refl this] have o: "outside (SREG s) s (write_SREG (SREG s) ?s7)" .
  then have "SREG (write_SREG (SREG s) ?s7) = SREG s"
    by (simp add: outside_def)
  from outside_trans [OF o outside_emit [OF this, of "Delay 1"]]
  show ?thesis
    by (simp add: readReg_response_def Let_def case_prod_beta delay_def)
qed


lemma take_prefix_extend:
  assumes "emits Q s s1" and "take n (new_events s s1) = a" and "length a = n"
    and "emits P s1 s'"
  shows "take n (new_events s s') = a"
proof -
  from assms(1) obtain ev where ev: "hw_trace s1 = hw_trace s @ ev"
    by (auto simp: emits_def)
  from assms(4) obtain ev' where ev': "hw_trace s' = hw_trace s1 @ ev'"
    by (auto simp: emits_def)
  from ev have n1: "new_events s s1 = ev"
    by (simp add: new_events_def)
  with assms(2,3) have "n \<le> length ev"
    by (metis length_take min.cobounded1)
  moreover from ev ev' have "new_events s s' = ev @ ev'"
    by (simp add: new_events_def)
  ultimately show ?thesis
    using assms(2) n1 by simp
qed

lemma readReg_window:
  "outside (SREG s) s (snd (readReg tc reg v s))"
  "take 2 (new_events s (snd (readReg tc reg v s))) =
     [(SREG s, Cli), (SREG s AND NOT 0x80, PortSet (pinOutputRegister s) (pinBitMask s))]"
  "(SREG s, Delay 14) \<in> set (new_events s (snd (readReg tc reg v s)))"
proof -
  let ?c = "SREG s"
  let ?s1 = "readReg_request reg s"
  let ?s2 = "snd (first_check reg s)"
  let ?s3 = "snd (received tc reg s)"
  let ?s4 = "snd (second_check tc reg s)"
  have o1: "outside ?c s ?s1"
    by (rule readReg_request_window)
  then have sr1: "SREG ?s1 = ?c"
    by (simp add: outside_def)
  have o2: "outside ?c ?s1 ?s2"
    using outside_digitalRead [of ?s1 "pin ?s1"] by (simp add: first_check_def Let_def sr1)
  then have sr2: "SREG ?s2 = ?c"
    by (simp add: outside_def)
  have o3: "outside ?c ?s2 ?s3"
    using readReg_response_window [of ?s2 tc] by (simp add: received_def sr2)
  then have sr3: "SREG ?s3 = ?c"
    by (simp add: outside_def)
  have o4: "outside ?c ?s3 ?s4"
    using outside_digitalRead [of ?s3 "pin ?s3"] by (simp add: second_check_def Let_def sr3)
  then have sr4: "SREG ?s4 = ?c"
    by (simp add: outside_def)
  have o: "outside ?c ?s1 (snd (readReg tc reg v s))"
  proof (cases "fst (first_check reg s) = LOW")
    case False
    have "outside ?c ?s2 (delay 2 ?s2)"
      using outside_emit [OF sr2, of "Delay 2"] by (simp add: delay_def)
    moreover have "outside ?c (delay 2 ?s2) (pinMode (pin ?s2) OUTPUT (delay 2 ?s2))"
      using outside_emit [of "delay 2 ?s2" ?c "PinMode (pin ?s2) OUTPUT"] sr2
      by (simp add: pinMode_def delay_def)
    ultimately have "outside ?c ?s2 (pinMode (pin ?s2) OUTPUT (delay 2 ?s2))"
      by (rule outside_trans)
    with o2 have "outside ?c ?s1 (pinMode (pin ?s2) OUTPUT (delay 2 ?s2))"
      by (rule outside_trans)
    with False show ?thesis
      by (simp add: readReg_no_servo)
  next
    case True
    have "outside ?c ?s4 (pinMode (pin ?s4) OUTPUT ?s4)"
      using outside_emit [OF sr4, of "PinMode (pin ?s4) OUTPUT"] by (simp add: pinMode_def)
    with outside_trans [OF outside_trans [OF o2 o3] o4]
    have f: "outside ?c ?s1 (pinMode (pin ?s4) OUTPUT ?s4)"
      by (rule outside_trans)
    show ?thesis
    proof (cases "fst (second_check tc reg s) = HIGH")
      case True
      with \<open>fst (first_check reg s) = LOW\<close> f show ?thesis
        by (simp add: readReg_validated)
    next
      case False
      with \<open>fst (first_check reg s) = LOW\<close> f show ?thesis
        by (simp add: readReg_no_resistor)
    qed
  qed
  from outside_trans [OF o1 o] show "outside ?c s (snd (readReg tc reg v s))" .
  from o1 have e1: "emits (window_ok ?c) s ?s1"
    by (simp add: outside_def)
  from o have e: "emits (window_ok ?c) ?s1 (snd (readReg tc reg v s))"
    by (simp add: outside_def)
  from take_prefix_extend [OF e1 readReg_request_window(2) _ e]
  show "take 2 (new_events s (snd (readReg tc reg v s))) =
     [(SREG s, Cli), (SREG s AND NOT 0x80, PortSet (pinOutputRegister s) (pinBitMask s))]"
    by simp
  from emits_member [OF e1 readReg_request_window(3) e]
  show "(SREG s, Delay 14) \<in> set (new_events s (snd (readReg tc reg v s)))" .
qed

text \<open>
  C9. Interrupt suppression is acquired immediately before the first bit of each request
  (the first two events of \<open>writeReg\<close> and of \<open>readReg\<close> are \<open>cli()\<close> and the start bit
  of the first byte, driven with interrupts off) and released on every exit path of both
  operations, the \<open>HITECD_ERR_NO_SERVO\<close>, \<open>HITECD_ERR_NO_RESISTOR\<close> and
  \<open>HITECD_ERR_CORRUPT\<close> returns included: when the operation returns, \<open>SREG\<close> has its
  value from before the call. Every access to the port registers and every bit delay
  happens with interrupts suppressed, and every settle delay (the \<open>delay(14)\<close> between
  request and response among them) runs with \<open>SREG\<close> at its value from before the call.
\<close>

theorem critical_sections:
  "SREG (writeReg reg val s) = SREG s \<and>
   list_all (window_ok (SREG s)) (new_events s (writeReg reg val s)) \<and>
   take 2 (new_events s (writeReg reg val s)) =
     [(SREG s, Cli), (SREG s AND NOT 0x80, PortSet (pinOutputRegister s) (pinBitMask s))] \<and>
   SREG (snd (readReg tc reg v s)) = SREG s \<and>
   list_all (window_ok (SREG s)) (new_events s (snd (readReg tc reg v s))) \<and>
   take 2 (new_events s (snd (readReg tc reg v s))) =
     [(SREG s, Cli), (SREG s AND NOT 0x80, PortSet (pinOutputRegister s) (pinBitMask s))] \<and>
   (SREG s, Delay 14) \<in> set (new_events s (snd (readReg tc reg v s)))"
  using writeReg_window [of s reg val] readReg_window [of s tc reg v]
  by (simp add: outside_def emits_new_events)

theorem critical_sections_witness:
  "SREG (snd (readReg 4266 0x00 0 model_number_run)) = 0x80 \<and>
   list_all (window_ok 0x80) (new_events model_number_run (snd (readReg 4266 0x00 0 model_number_run))) \<and>
   take 2 (new_events model_number_run (snd (readReg 4266 0x00 0 model_number_run))) =
     [(0x80, Cli), (0x00, PortSet 0x2B 0x04)] \<and>
   (0x80, Delay 14) \<in> set (new_events model_number_run (snd (readReg 4266 0x00 0 model_number_run)))"
  using critical_sections [of "0x00" "0x00" model_number_run 4266 0]
  by (simp add: model_number_run_def bench_reading_def bench_servo_def)

section \<open>Operations on a detached servo\<close>

lemma readReg_request_levels:
  "line_levels (new_events s (readReg_request reg s)) =
     concat (map frame_levels [0x96, 0x00, reg, 0x00, reg])"
proof -
  let ?bs = "[0x96, 0x00, reg, 0x00, reg]"
  let ?body = "foldl (\<lambda>s b. writeByte b s) (cli s) ?bs"
  obtain ev where ev: "hw_trace ?body = hw_trace (cli s) @ ev"
    "line_levels ev = concat (map frame_levels ?bs)"
    using writeBytes_trace [of "cli s" ?bs] by blast
  have "hw_trace (readReg_request reg s) =
      hw_trace s @ ((SREG s, Cli) # ev @
        [(SREG ?body, DigitalWrite (pin s) LOW), (SREG ?body, WriteSREG (SREG s)),
         (SREG s, Delay 14), (SREG s, PinMode (pin s) INPUT_PULLUP)])"
    using ev(1)
    by (simp add: readReg_request_eq pinMode_def delay_def write_SREG_def digitalWrite_def
        emit_def cli_def)
  then have "new_events s (readReg_request reg s) = (SREG s, Cli) # ev @
        [(SREG ?body, DigitalWrite (pin s) LOW), (SREG ?body, WriteSREG (SREG s)),
         (SREG s, Delay 14), (SREG s, PinMode (pin s) INPUT_PULLUP)]"
    by (rule new_events_append)
  then show ?thesis
    using ev(2) by (simp add: line_levels_def)
qed

lemma readReg_no_servo_levels:
  assumes "fst (first_check reg s) \<noteq> LOW"
  shows "line_levels (new_events s (snd (readReg tc reg v s))) =
     concat (map frame_levels [0x96, 0x00, reg, 0x00, reg])"
proof -
  let ?s1 = "readReg_request reg s"
  obtain ev where ev: "hw_trace ?s1 = hw_trace s @ ev"
    using readReg_request_window(1) [of s reg] by (auto simp: outside_def emits_def)
  then have n1: "new_events s ?s1 = ev"
    by (rule new_events_append)
  have "hw_trace (snd (sample ?s1)) = hw_trace ?s1" "SREG (snd (sample ?s1)) = SREG ?s1"
    "pin (snd (sample ?s1)) = pin s"
    by (simp_all add: sample_def split: list.splits)
  then have "hw_trace (snd (readReg tc reg v s)) =
      hw_trace s @ (ev @ [(SREG ?s1, DigitalRead (pin s) (fst (sample ?s1))),
        (SREG ?s1, Delay 2), (SREG ?s1, PinMode (pin s) OUTPUT)])"
    using ev
    by (simp add: readReg_no_servo [OF assms] first_check_def Let_def digitalRead_def
        case_prod_beta pinMode_def delay_def emit_def)
  then have "new_events s (snd (readReg tc reg v s)) =
      ev @ [(SREG ?s1, DigitalRead (pin s) (fst (sample ?s1))),
        (SREG ?s1, Delay 2), (SREG ?s1, PinMode (pin s) OUTPUT)]"
    by (rule new_events_append)
  then show ?thesis
    using readReg_request_levels [of s reg] n1 by (simp add: line_levels_def)
qed

lemma line_in_detach [simp]: "line_in (detach s) = line_in s"
  by (simp add: detach_def)

lemma fst_first_check: "fst (first_check reg s) = (case line_in s of [] \<Rightarrow> LOW | x # xs \<Rightarrow> x)"
  by (simp add: first_check_def Let_def fst_digitalRead)

text \<open>
  C5 against the code. The header defines \<open>HITECD_ERR_NOT_ATTACHED\<close>, but
  \<open>readModelNumber\<close> and \<open>readReg\<close> never test \<open>attached()\<close>. After \<open>detach()\<close>,
  \<open>readModelNumber()\<close> still drives the read request of register 0 onto the line,
  through the port registers that the last \<open>attach()\<close> left in the object: on a line
  without servo it returns \<open>HITECD_ERR_NO_SERVO\<close>, on a line with a servo that answers
  it returns the model number 485; in neither run \<open>HITECD_ERR_NOT_ATTACHED\<close>.
\<close>

theorem readModelNumber_detached:
  "attached (detach no_servo_run) = False \<and>
   fst (readModelNumber 4266 0 (detach no_servo_run)) = HITECD_ERR_NO_SERVO \<and>
   fst (readModelNumber 4266 0 (detach no_servo_run)) \<noteq> HITECD_ERR_NOT_ATTACHED \<and>
   line_levels (new_events (detach no_servo_run)
       (snd (readModelNumber 4266 0 (detach no_servo_run)))) =
     concat (map frame_levels [0x96, 0x00, 0x00, 0x00, 0x00]) \<and>
   attached (detach model_number_run) = False \<and>
   fst (readModelNumber 4266 0 (detach model_number_run)) = 485 \<and>
   fst (readModelNumber 4266 0 (detach model_number_run)) \<noteq> HITECD_ERR_NOT_ATTACHED"
proof -
  have a: "fst (first_check 0x00 (detach no_servo_run)) \<noteq> LOW"
    by (simp add: fst_first_check no_servo_run_def bench_reading_def)
  have r1: "fst (readModelNumber 4266 0 (detach no_servo_run)) = HITECD_ERR_NO_SERVO"
    by (simp add: readModelNumber_def case_prod_beta readReg_no_servo [OF a] HITECD_defs)
  have "snd (readModelNumber 4266 0 (detach no_servo_run)) =
      snd (readReg 4266 0x00 0 (detach no_servo_run))"
    by (simp add: readModelNumber_def case_prod_beta)
  with readReg_no_servo_levels [OF a, of 4266 0]
  have t1: "line_levels (new_events (detach no_servo_run)
       (snd (readModelNumber 4266 0 (detach no_servo_run)))) =
     concat (map frame_levels [0x96, 0x00, 0x00, 0x00, 0x00])"
    by simp
  have "line_in (detach model_number_run) =
      LOW # frame_levels 0x69 @ frame_levels 0x00 @ frame_levels 0x00 @ frame_levels 0x02 @
        frame_levels 0xE5 @ frame_levels 0x01 @ frame_levels 0xE8 @ HIGH # []"
    by (simp add: model_number_run_def bench_reading_def answer_def)
  note h = answered_read [OF this framed_frame_levels framed_frame_levels framed_frame_levels
      framed_frame_levels framed_frame_levels framed_frame_levels framed_frame_levels]
  have "fst (readReg 4266 0x00 0 (detach model_number_run)) = (HITECD_OK, 485)"
    by (simp add: readReg_validated h readReg_validate_if HITECD_defs)
  then have r2: "fst (readModelNumber 4266 0 (detach model_number_run)) = 485"
    by (simp add: readModelNumber_def case_prod_beta HITECD_defs)
  have "attached (detach no_servo_run) = False" "attached (detach model_number_run) = False"
    by (simp_all add: attached_def detach_def)
  with r1 r2 t1 show ?thesis
    by (simp add: HITECD_defs)
qed

section \<open>Unit views of the current position\<close>




















lemma bench_micros_not_strict:
  "rawAngleToUnits 1 floor floor 3381 8192 13002 5000 = 1068 \<and>
   rawAngleToUnits 1 floor floor 3381 8192 13002 5001 = 1068"
  by (simp add: rawAngleToUnits_def lower_segment_def floor_eq_iff)



end
